theory Spec2Isabelle
  imports Main "HOL-Library.Char_ord" "HOL-Library.List_Lexorder" "HOL-Library.AList"
begin

section \<open>Python strings\<close>

text \<open>
  A string is a list of characters with code points below 256 (Latin-1). The names the
  program handles (file names of the remote directory, month identifiers, header values)
  are of that kind. On these code points \<^verbatim>\<open>str.lower\<close> maps \<^verbatim>\<open>A..Z\<close> and the
  accented capitals \<open>192..222\<close> (but not the multiplication sign, \<open>215\<close>) to the
  character 32 places further, and leaves the others alone.
\<close>

definition lower_char :: "char \<Rightarrow> char" where
  "lower_char c =
     (let n = (of_char c :: nat)
      in if (65 \<le> n \<and> n \<le> 90) \<or> (192 \<le> n \<and> n \<le> 222 \<and> n \<noteq> 215)
         then char_of (n + 32) else c)"

definition lower :: "string \<Rightarrow> string" where
  "lower s = map lower_char s"

definition startswith :: "string \<Rightarrow> string \<Rightarrow> bool" where
  "startswith s p = (take (length p) s = p)"

definition endswith :: "string \<Rightarrow> string \<Rightarrow> bool" where
  "endswith s p = (length p \<le> length s \<and> drop (length s - length p) s = p)"

text \<open>\<^verbatim>\<open>sub in s\<close>: \<open>sub\<close> occurs in \<open>s\<close> as a contiguous substring.\<close>

fun contains :: "string \<Rightarrow> string \<Rightarrow> bool" where
  "contains [] sub = (sub = [])"
| "contains (c # cs) sub = (take (length sub) (c # cs) = sub \<or> contains cs sub)"

text \<open>
  The characters of which \<^verbatim>\<open>str.isdigit\<close> is true, among the code points below 256:
  \<^verbatim>\<open>0..9\<close> and the superscript digits two, three and one (\<open>178\<close>, \<open>179\<close>,
  \<open>185\<close>).
\<close>

definition is_digit_char :: "char \<Rightarrow> bool" where
  "is_digit_char c =
     (let n = (of_char c :: nat) in (48 \<le> n \<and> n \<le> 57) \<or> n = 178 \<or> n = 179 \<or> n = 185)"

text \<open>\<^verbatim>\<open>str.isdigit\<close>: false on the empty string.\<close>

definition isdigit :: "string \<Rightarrow> bool" where
  "isdigit s = (s \<noteq> [] \<and> list_all is_digit_char s)"

text \<open>\<^verbatim>\<open>s.rstrip("/")\<close> and \<^verbatim>\<open>s.split("/")[-1]\<close>.\<close>

definition rstrip_slash :: "string \<Rightarrow> string" where
  "rstrip_slash s = rev (dropWhile (\<lambda>c. c = CHR ''/'') (rev s))"

definition last_segment :: "string \<Rightarrow> string" where
  "last_segment s = rev (takeWhile (\<lambda>c. c \<noteq> CHR ''/'') (rev s))"

text \<open>\<^verbatim>\<open>elem.text.rstrip("/").split("/")[-1]\<close>, on the text of an href element.\<close>

definition href_name :: "string \<Rightarrow> string" where
  "href_name t = last_segment (rstrip_slash t)"

text \<open>Decimal digits of a natural number, as \<^verbatim>\<open>str\<close> prints them.\<close>

definition digit_char :: "nat \<Rightarrow> char" where
  "digit_char d = char_of (48 + d)"

fun str_nat_fuel :: "nat \<Rightarrow> nat \<Rightarrow> string" where
  "str_nat_fuel 0 n = [digit_char (n mod 10)]"
| "str_nat_fuel (Suc k) n =
     (if n < 10 then [digit_char n] else str_nat_fuel k (n div 10) @ [digit_char (n mod 10)])"

text \<open>A number \<open>n\<close> has at most \<open>n + 1\<close> digits, so the fuel never runs out.\<close>

definition str_nat :: "nat \<Rightarrow> string" where
  "str_nat n = str_nat_fuel n n"

text \<open>\<^verbatim>\<open>str(i)\<close> and the format \<^verbatim>\<open>{i:02d}\<close> for an integer: the sign counts in the width.\<close>

definition str_int :: "int \<Rightarrow> string" where
  "str_int i = (if i < 0 then CHR ''-'' # str_nat (nat (- i)) else str_nat (nat i))"

definition zfill :: "nat \<Rightarrow> string \<Rightarrow> string" where
  "zfill width s = replicate (width - length s) CHR ''0'' @ s"

definition fmt_02d :: "int \<Rightarrow> string" where
  "fmt_02d i =
     (if i < 0 then CHR ''-'' # zfill 1 (str_nat (nat (- i))) else zfill 2 (str_nat (nat i)))"


section \<open>Settings: the default month\<close>

text \<open>
  \<^verbatim>\<open>get_default_cnpj_month\<close> reads \<^verbatim>\<open>date.today()\<close>; the reading of the clock is the
  argument here. A \<^verbatim>\<open>date\<close> has a year in \<open>1..9999\<close> and a month in \<open>1..12\<close>.
\<close>

record date =
  date_year :: int
  date_month :: int
  date_day :: int

definition get_default_cnpj_month :: "date \<Rightarrow> string" where
  "get_default_cnpj_month today =
     (let y = date_year today;
          m = date_month today - 1;
          (y, m) = (if m = 0 then (y - 1, 12) else (y, m))
      in str_int y @ ''-'' @ fmt_02d m)"


section \<open>The relevance filter and the month-folder shape\<close>

definition is_relevant_zip :: "string \<Rightarrow> bool" where
  "is_relevant_zip name0 =
     (let name = lower name0 in
        startswith name ''estabelecimentos''
        \<or> startswith name ''empresas''
        \<or> startswith name ''cnae''
        \<or> startswith name ''municipios'')"

definition is_month_folder :: "string \<Rightarrow> bool" where
  "is_month_folder name =
     (if length name \<noteq> 7 then False
      else name ! 4 = CHR ''-'' \<and> isdigit (take 4 name) \<and> isdigit (drop 5 name))"


section \<open>The world of the downloader\<close>

text \<open>
  Exceptions are values. The classes the transfer worker names in its \<^verbatim>\<open>except\<close>
  clause are kept apart from the others (\<^verbatim>\<open>HTTPError\<close> is a \<^verbatim>\<open>URLError\<close>);
  \<open>OtherError\<close> stands for any other subclass of \<^verbatim>\<open>Exception\<close>.
\<close>

datatype exc =
    URLError
  | TimeoutError
  | ConnectionResetError
  | RuntimeError string
  | ValueError
  | AttributeError
  | OtherError

text \<open>
  What the program does to the outside, in order: the requests it sends, the time it
  sleeps (in seconds; the waits \<^verbatim>\<open>3.0 * attempt ** 2\<close> are whole numbers) and the
  announcement of each download round. The other progress messages are not recorded.
\<close>

datatype event =
    Propfind string
  | Get string
  | Sleep nat
  | Round nat

text \<open>
  The answer to a listing request of the downloader: the request or the parsing of the
  answer raises, or the answer holds href elements, each with its text (\<open>None\<close> for an
  element without text).
\<close>

datatype zips_response =
    ListRaise exc
  | ListBody "string option list"

text \<open>
  The answer to a GET: \<^verbatim>\<open>urlopen\<close> raises, or there is a response with its
  Content-Type header (\<open>None\<close> when absent), whether its Content-Length header is absent
  or a number (\<^verbatim>\<open>int\<close> raises \<^verbatim>\<open>ValueError\<close> otherwise), the chunks that
  \<^verbatim>\<open>resp.read\<close> returns one after the other, and what happens after the last of them:
  the end of the body (\<open>None\<close>) or an exception.
\<close>

datatype get_response =
    GetRaise exc
  | GetResp "string option" bool "string list" "exc option"

text \<open>An entry of the answer to the listing request of the month finder.\<close>

record dav_response =
  resp_href :: "string option option"
  resp_lastmod :: "int option option"

datatype folders_response =
    FoldersRaise exc
  | FoldersBody "dav_response list"

text \<open>
  The remote server: the answer to the \<open>k\<close>-th listing request, and to the \<open>k\<close>-th GET
  of a URL.
\<close>

record remote =
  propfind_zips :: "string \<Rightarrow> nat \<Rightarrow> zips_response"
  propfind_folders :: "nat \<Rightarrow> folders_response"
  get_file :: "string \<Rightarrow> nat \<Rightarrow> get_response"

text \<open>
  The state: the local files (path to contents), the number of listing requests and of
  GETs of each URL sent so far, and the events so far. Directories are not modelled:
  \<^verbatim>\<open>mkdir(parents=True, exist_ok=True)\<close> and opening a file for writing succeed.
\<close>

record world =
  fs :: "string \<Rightarrow> string option"
  nlist :: nat
  ngets :: "string \<Rightarrow> nat"
  trace :: "event list"

definition emit :: "event \<Rightarrow> world \<Rightarrow> world" where
  "emit e w = w\<lparr>trace := trace w @ [e]\<rparr>"

text \<open>Sending a request counts it and records it.\<close>

definition sent_propfind :: "string \<Rightarrow> world \<Rightarrow> world" where
  "sent_propfind url w = emit (Propfind url) (w\<lparr>nlist := nlist w + 1\<rparr>)"

definition sent_get :: "string \<Rightarrow> world \<Rightarrow> world" where
  "sent_get url w = emit (Get url) (w\<lparr>ngets := (ngets w)(url := ngets w url + 1)\<rparr>)"

record DownloadResult =
  downloaded :: "string list"
  skipped :: "string list"

record CNPJDownloader =
  public_token :: string
  raw_dir :: string
  max_workers :: nat

definition WEBDAV_BASE :: string where
  "WEBDAV_BASE = ''https://dados-hom.receitafederal.gov.br/public.php/webdav''"

definition build_month_dir :: "string \<Rightarrow> string" where
  "build_month_dir mon = ''/Dados/Cadastros/CNPJ/'' @ mon"

definition build_file_url :: "string \<Rightarrow> string \<Rightarrow> string" where
  "build_file_url mon filename = WEBDAV_BASE @ build_month_dir mon @ ''/'' @ filename"

definition month_url :: "string \<Rightarrow> string" where
  "month_url mon = WEBDAV_BASE @ build_month_dir mon @ ''/''"

text \<open>\<^verbatim>\<open>self.raw_dir / month\<close> and \<^verbatim>\<open>month_dir / name\<close>.\<close>

definition month_dir_of :: "CNPJDownloader \<Rightarrow> string \<Rightarrow> string" where
  "month_dir_of self mon = raw_dir self @ ''/'' @ mon"

definition out_path_of :: "CNPJDownloader \<Rightarrow> string \<Rightarrow> string \<Rightarrow> string" where
  "out_path_of self mon name = month_dir_of self mon @ ''/'' @ name"

text \<open>\<^verbatim>\<open>path.exists() and path.stat().st_size > 0\<close>.\<close>

definition present :: "(string \<Rightarrow> string option) \<Rightarrow> string \<Rightarrow> bool" where
  "present files p = (case files p of None \<Rightarrow> False | Some c \<Rightarrow> 0 < length c)"


section \<open>Listing the archives of a month\<close>

text \<open>The loop over the href elements of an answer.\<close>

fun collect_zips :: "string option list \<Rightarrow> string list \<Rightarrow> exc + string list" where
  "collect_zips [] zip_names = Inr zip_names"
| "collect_zips (None # elems) zip_names = Inl AttributeError"
| "collect_zips (Some t # elems) zip_names =
     (let name = href_name t in
        if endswith (lower name) ''.zip'' \<and> is_relevant_zip name
        then collect_zips elems (zip_names @ [name])
        else collect_zips elems zip_names)"

text \<open>The body of the \<^verbatim>\<open>try\<close> of one listing attempt.\<close>

definition list_attempt :: "zips_response \<Rightarrow> exc + string list" where
  "list_attempt r =
     (case r of
        ListRaise e \<Rightarrow> Inl e
      | ListBody elems \<Rightarrow>
          (case collect_zips elems [] of
             Inl e \<Rightarrow> Inl e
           | Inr zip_names \<Rightarrow>
               if zip_names = [] then Inl (RuntimeError ''No ZIPs found'')
               else Inr zip_names))"

text \<open>
  \<^verbatim>\<open>for attempt in range(1, retries + 1)\<close>, from \<open>attempt\<close> on. Every exception of
  an attempt is caught; the error of the last attempt is replaced by the error that names
  the month. A loop that runs out (no attempt at all) returns the empty list.
\<close>

function list_loop ::
  "remote \<Rightarrow> string \<Rightarrow> nat \<Rightarrow> nat \<Rightarrow> world \<Rightarrow> (exc + string list) \<times> world" where
  "list_loop env mon retries attempt w =
     (if retries < attempt then (Inr [], w)
      else
        let url = month_url mon;
            r = propfind_zips env url (nlist w);
            w1 = sent_propfind url w
        in case list_attempt r of
             Inr zip_names \<Rightarrow> (Inr zip_names, w1)
           | Inl e \<Rightarrow>
               if attempt = retries
               then (Inl (RuntimeError (''Failed to list ZIPs for '' @ mon)), w1)
               else list_loop env mon retries (attempt + 1) (emit (Sleep (3 * attempt\<^sup>2)) w1))"
  by pat_completeness auto
termination
  by (relation "measure (\<lambda>(env, mon, retries, attempt, w). Suc retries - attempt)") auto

declare list_loop.simps [simp del]

definition list_month_zips ::
  "remote \<Rightarrow> string \<Rightarrow> nat \<Rightarrow> world \<Rightarrow> (exc + string list) \<times> world" where
  "list_month_zips env mon retries w = list_loop env mon retries 1 w"


section \<open>Transferring one file\<close>

text \<open>The classes of the \<^verbatim>\<open>except\<close> clause of the transfer worker.\<close>

fun caught :: "exc \<Rightarrow> bool" where
  "caught URLError = True"
| "caught TimeoutError = True"
| "caught ConnectionResetError = True"
| "caught (RuntimeError msg) = True"
| "caught e = False"

text \<open>
  \<^verbatim>\<open>while True: chunk = resp.read(...)\<close>: an empty chunk ends the loop, every other
  chunk is written to the file. The result is what ended the loop and the bytes written.
\<close>

fun read_chunks :: "string list \<Rightarrow> exc option \<Rightarrow> string \<Rightarrow> exc option \<times> string" where
  "read_chunks [] ending written = (ending, written)"
| "read_chunks (chunk # chunks) ending written =
     (if chunk = [] then (None, written) else read_chunks chunks ending (written @ chunk))"

text \<open>
  The body of the \<^verbatim>\<open>try\<close> of one transfer attempt, on the local files. Opening the
  target for writing creates it empty, so after the body was read, whole or in part,
  the target holds the bytes written.
\<close>

definition transfer_attempt ::
  "get_response \<Rightarrow> string \<Rightarrow> (string \<Rightarrow> string option)
     \<Rightarrow> (exc + unit) \<times> (string \<Rightarrow> string option)" where
  "transfer_attempt r out_path files =
     (case r of
        GetRaise e \<Rightarrow> (Inl e, files)
      | GetResp ctype cl_ok chunks ending \<Rightarrow>
          let content_type = lower (case ctype of None \<Rightarrow> [] | Some v \<Rightarrow> v) in
            if \<not> contains content_type ''zip''
            then (Inl (RuntimeError (''Expected ZIP, got '' @ content_type)), files)
            else if \<not> cl_ok then (Inl ValueError, files)
            else
              (case read_chunks chunks ending [] of
                 (None, written) \<Rightarrow> (Inr (), files(out_path \<mapsto> written))
               | (Some e, written) \<Rightarrow> (Inl e, files(out_path \<mapsto> written))))"

text \<open>
  \<^verbatim>\<open>for attempt in range(1, retries + 1)\<close>, from \<open>attempt\<close> on. A caught exception
  unlinks the target; an exception of another class leaves the loop at once, with the
  files as the attempt left them. A loop that runs out returns normally.
\<close>

function download_loop ::
  "remote \<Rightarrow> string \<Rightarrow> string \<Rightarrow> nat \<Rightarrow> nat \<Rightarrow> world \<Rightarrow> (exc + unit) \<times> world" where
  "download_loop env url out_path retries attempt w =
     (if retries < attempt then (Inr (), w)
      else
        let r = get_file env url (ngets w url);
            w1 = sent_get url w
        in case transfer_attempt r out_path (fs w1) of
             (Inr u, files) \<Rightarrow> (Inr (), w1\<lparr>fs := files\<rparr>)
           | (Inl e, files) \<Rightarrow>
               if caught e then
                 let w2 = w1\<lparr>fs := files(out_path := None)\<rparr> in
                   if attempt = retries then (Inl e, w2)
                   else download_loop env url out_path retries (attempt + 1)
                          (emit (Sleep (3 * attempt\<^sup>2)) w2)
               else (Inl e, w1\<lparr>fs := files\<rparr>))"
  by pat_completeness auto
termination
  by (relation "measure (\<lambda>(env, url, out_path, retries, attempt, w). Suc retries - attempt)")
    auto

declare download_loop.simps [simp del]

definition download_file ::
  "remote \<Rightarrow> string \<Rightarrow> string \<Rightarrow> nat \<Rightarrow> world \<Rightarrow> (exc + unit) \<times> world" where
  "download_file env url out_path retries w = download_loop env url out_path retries 1 w"


section \<open>One round, the completeness check and the month\<close>

text \<open>The loop that splits the listed names into the skipped paths and the tasks.\<close>

fun diff_names ::
  "CNPJDownloader \<Rightarrow> string \<Rightarrow> (string \<Rightarrow> string option) \<Rightarrow> string list
     \<Rightarrow> string list \<Rightarrow> (string \<times> string) list \<Rightarrow> string list \<times> (string \<times> string) list" where
  "diff_names self mon files [] skip tasks = (skip, tasks)"
| "diff_names self mon files (name # names) skip tasks =
     (let out_path = out_path_of self mon name in
        if present files out_path
        then diff_names self mon files names (skip @ [out_path]) tasks
        else diff_names self mon files names skip (tasks @ [(name, out_path)]))"

text \<open>
  The tasks of a round. The pool runs them on \<^verbatim>\<open>max_workers\<close> threads and the
  results are collected as they complete; here they run one after the other, in the
  order of submission. Whatever a task raises is caught and only logged.
\<close>

fun run_tasks ::
  "remote \<Rightarrow> CNPJDownloader \<Rightarrow> string \<Rightarrow> (string \<times> string) list \<Rightarrow> string list \<Rightarrow> world
     \<Rightarrow> string list \<times> world" where
  "run_tasks env self mon [] fetched w = (fetched, w)"
| "run_tasks env self mon ((name, out_path) # tasks) fetched w =
     (case download_file env (build_file_url mon name) out_path 3 w of
        (Inr u, w') \<Rightarrow> run_tasks env self mon tasks (fetched @ [out_path_of self mon name]) w'
      | (Inl e, w') \<Rightarrow> run_tasks env self mon tasks fetched w')"

definition download_once ::
  "remote \<Rightarrow> CNPJDownloader \<Rightarrow> string \<Rightarrow> world \<Rightarrow> (exc + DownloadResult) \<times> world" where
  "download_once env self mon w =
     (case list_month_zips env mon 5 w of
        (Inl e, w1) \<Rightarrow> (Inl e, w1)
      | (Inr zip_names, w1) \<Rightarrow>
          (case diff_names self mon (fs w1) zip_names [] [] of
             (skip, tasks) \<Rightarrow>
               if tasks = [] then (Inr \<lparr>downloaded = [], skipped = skip\<rparr>, w1)
               else
                 (case run_tasks env self mon tasks [] w1 of
                    (fetched, w2) \<Rightarrow> (Inr \<lparr>downloaded = fetched, skipped = skip\<rparr>, w2))))"

fun missing_names ::
  "CNPJDownloader \<Rightarrow> string \<Rightarrow> (string \<Rightarrow> string option) \<Rightarrow> string list \<Rightarrow> string list
     \<Rightarrow> string list" where
  "missing_names self mon files [] missing = missing"
| "missing_names self mon files (name # names) missing =
     (if \<not> present files (out_path_of self mon name)
      then missing_names self mon files names (missing @ [name])
      else missing_names self mon files names missing)"

definition find_missing_zips ::
  "remote \<Rightarrow> CNPJDownloader \<Rightarrow> string \<Rightarrow> world \<Rightarrow> (exc + string list) \<times> world" where
  "find_missing_zips env self mon w =
     (case list_month_zips env mon 5 w of
        (Inl e, w1) \<Rightarrow> (Inl e, w1)
      | (Inr expected, w1) \<Rightarrow> (Inr (missing_names self mon (fs w1) expected []), w1))"

text \<open>
  \<^verbatim>\<open>for round_num in range(1, max_rounds + 1)\<close>, from \<open>round_num\<close> on, with the two
  accumulators of \<^verbatim>\<open>download_month\<close>.
\<close>

function month_loop ::
  "remote \<Rightarrow> CNPJDownloader \<Rightarrow> string \<Rightarrow> nat \<Rightarrow> nat \<Rightarrow> string list \<Rightarrow> string list \<Rightarrow> world
     \<Rightarrow> (exc + DownloadResult) \<times> world" where
  "month_loop env self mon max_rounds round_num downloaded_all skipped_all w =
     (if max_rounds < round_num
      then (Inl (RuntimeError (''[DOWNLOADER] Failed to fully download month '' @ mon
                   @ '' after '' @ str_nat max_rounds @ '' rounds'')), w)
      else
        (case download_once env self mon (emit (Round round_num) w) of
           (Inl e, w1) \<Rightarrow> (Inl e, w1)
         | (Inr result, w1) \<Rightarrow>
             let downloaded_all' = downloaded_all @ downloaded result;
                 skipped_all' = skipped result
             in (case find_missing_zips env self mon w1 of
                   (Inl e, w2) \<Rightarrow> (Inl e, w2)
                 | (Inr missing, w2) \<Rightarrow>
                     if missing = []
                     then (Inr \<lparr>downloaded = downloaded_all', skipped = skipped_all'\<rparr>, w2)
                     else month_loop env self mon max_rounds (round_num + 1)
                            downloaded_all' skipped_all' (emit (Sleep 10) w2))))"
  by pat_completeness auto
termination
  by (relation "measure (\<lambda>(env, self, mon, max_rounds, round_num, d, s, w).
                           Suc max_rounds - round_num)") auto

declare month_loop.simps [simp del]

definition download_month ::
  "remote \<Rightarrow> CNPJDownloader \<Rightarrow> string \<Rightarrow> world \<Rightarrow> (exc + DownloadResult) \<times> world" where
  "download_month env self mon w = month_loop env self mon 5 1 [] [] w"


text \<open>
  What one round of \<^verbatim>\<open>download_month\<close> did: the state in which
  \<^verbatim>\<open>_download_once\<close> was called (after the announcement of the round), its result,
  the state in which \<^verbatim>\<open>_find_missing_zips\<close> was called, the missing names it
  returned and the state it left.
\<close>

record round_log =
  round_start :: world
  round_result :: DownloadResult
  round_checked :: world
  round_missing :: "string list"
  round_end :: world

text \<open>
  \<open>rounds_from env self mon round_num w logs\<close>: the logs are those of consecutive rounds
  of \<^verbatim>\<open>download_month\<close>, numbered from \<open>round_num\<close> and starting in state \<open>w\<close>.
  Each round calls \<^verbatim>\<open>_download_once\<close> and then \<^verbatim>\<open>_find_missing_zips\<close>, both
  return, and a round is followed by another only when it found a file missing, after a
  sleep of 10 seconds.
\<close>

fun rounds_from ::
  "remote \<Rightarrow> CNPJDownloader \<Rightarrow> string \<Rightarrow> nat \<Rightarrow> world \<Rightarrow> round_log list \<Rightarrow> bool" where
  "rounds_from env self mon round_num w [] = True"
| "rounds_from env self mon round_num w (r # rs) =
     (round_start r = emit (Round round_num) w
      \<and> download_once env self mon (round_start r) = (Inr (round_result r), round_checked r)
      \<and> find_missing_zips env self mon (round_checked r) = (Inr (round_missing r), round_end r)
      \<and> (rs = [] \<or> round_missing r \<noteq> [])
      \<and> rounds_from env self mon (Suc round_num) (emit (Sleep 10) (round_end r)) rs)"


section \<open>The month finder\<close>

text \<open>
  A \<^verbatim>\<open>datetime\<close> is a number of microseconds since the epoch. The parsed
  last-modified time of an entry is \<open>None\<close> when \<^verbatim>\<open>strptime\<close> raises.
\<close>

definition timedelta_days :: "int \<Rightarrow> int" where
  "timedelta_days d = d * 86400000000"

text \<open>
  The loop over the response elements. \<^verbatim>\<open>months[name] = last_modified\<close> on an
  insertion-ordered dictionary: a name already there keeps its place and takes the new
  value.
\<close>

fun collect_months ::
  "dav_response list \<Rightarrow> (string \<times> int) list \<Rightarrow> exc + (string \<times> int) list" where
  "collect_months [] months = Inr months"
| "collect_months (r # rs) months =
     (case resp_href r of
        None \<Rightarrow> collect_months rs months
      | Some href_text \<Rightarrow>
          (case resp_lastmod r of
             None \<Rightarrow> collect_months rs months
           | Some parsed \<Rightarrow>
               (case href_text of
                  None \<Rightarrow> Inl AttributeError
                | Some t \<Rightarrow>
                    let name = href_name t in
                      if \<not> is_month_folder name then collect_months rs months
                      else
                        (case parsed of
                           None \<Rightarrow> Inl ValueError
                         | Some last_modified \<Rightarrow>
                             collect_months rs (AList.update name last_modified months)))))"

text \<open>One request, no \<^verbatim>\<open>try\<close>: whatever is raised leaves the function.\<close>

definition list_month_folders :: "remote \<Rightarrow> world \<Rightarrow> (exc + (string \<times> int) list) \<times> world" where
  "list_month_folders env w =
     (let url = WEBDAV_BASE @ ''/Dados/Cadastros/CNPJ/'';
          r = propfind_folders env (nlist w);
          w1 = sent_propfind url w
      in case r of
           FoldersRaise e \<Rightarrow> (Inl e, w1)
         | FoldersBody rs \<Rightarrow> (collect_months rs [], w1))"




text \<open>
  \<^verbatim>\<open>get_updated_months\<close>, with the window of the finder and the reading of the clock
  as arguments. The cutoff is computed before the listing; it is the difference of the
  two, which is what the subtraction returns when the window and the clock are in range.
\<close>

definition get_updated_months ::
  "remote \<Rightarrow> int \<Rightarrow> int \<Rightarrow> world \<Rightarrow> (exc + string list) \<times> world" where
  "get_updated_months env days_window now w =
     (let cutoff = now - timedelta_days days_window in
        case list_month_folders env w of
          (Inl e, w1) \<Rightarrow> (Inl e, w1)
        | (Inr months, w1) \<Rightarrow>
            (Inr (sort (map fst (filter (\<lambda>(mon, last_modified). cutoff \<le> last_modified)
                                  months))), w1))"


section \<open>Printing numbers\<close>

lemma digit_char_is_digit: "d < 10 \<Longrightarrow> is_digit_char (digit_char d)"
  by (simp add: is_digit_char_def digit_char_def)

lemma str_nat_fuel_small: "n < 10 \<Longrightarrow> str_nat_fuel k n = [digit_char n]"
  by (cases k) simp_all

lemma str_nat_fuel_step:
  "10 \<le> n \<Longrightarrow> 0 < k \<Longrightarrow> str_nat_fuel k n = str_nat_fuel (k - 1) (n div 10) @ [digit_char (n mod 10)]"
  by (cases k) simp_all

lemma str_nat_four:
  assumes "1000 \<le> n" "n \<le> 9999"
  shows "str_nat n = [digit_char (n div 1000), digit_char (n div 100 mod 10),
                      digit_char (n div 10 mod 10), digit_char (n mod 10)]"
proof -
  have e: "n div 10 div 10 = n div 100" "n div 100 div 10 = n div 1000"
    by (simp_all add: div_mult2_eq[symmetric])
  have a: "str_nat_fuel n n = str_nat_fuel (n - 1) (n div 10) @ [digit_char (n mod 10)]"
    using assms by (intro str_nat_fuel_step) auto
  have b: "str_nat_fuel (n - 1) (n div 10)
             = str_nat_fuel (n - 1 - 1) (n div 100) @ [digit_char (n div 10 mod 10)]"
    using str_nat_fuel_step[of "n div 10" "n - 1"] assms by (simp add: e)
  have c: "str_nat_fuel (n - 1 - 1) (n div 100)
             = str_nat_fuel (n - 1 - 1 - 1) (n div 1000) @ [digit_char (n div 100 mod 10)]"
    using str_nat_fuel_step[of "n div 100" "n - 1 - 1"] assms by (simp add: e)
  have d: "str_nat_fuel (n - 1 - 1 - 1) (n div 1000) = [digit_char (n div 1000)]"
    using assms by (intro str_nat_fuel_small) auto
  have "str_nat n = str_nat_fuel n n" by (simp add: str_nat_def)
  also have "\<dots> = (([digit_char (n div 1000)] @ [digit_char (n div 100 mod 10)])
                    @ [digit_char (n div 10 mod 10)]) @ [digit_char (n mod 10)]"
    by (simp only: a b c d)
  finally show ?thesis by simp
qed

lemma fmt_02d_month:
  assumes "1 \<le> m" "m \<le> 12"
  shows "fmt_02d m = [digit_char (nat m div 10), digit_char (nat m mod 10)]"
proof -
  from assms have "m \<in> {1,2,3,4,5,6,7,8,9,10,11,12}" by (simp; presburger)
  then show ?thesis
    by (elim insertE emptyE; hypsubst; code_simp)
qed


section \<open>The relevance filter selects by suffix and prefix\<close>

lemma collect_zips_filter:
  "collect_zips (map Some texts) acc =
     Inr (acc @ filter (\<lambda>n. endswith (lower n) ''.zip'' \<and> is_relevant_zip n) (map href_name texts))"
  by (induction texts arbitrary: acc) (simp_all add: Let_def)

lemma filter_two_of_four:
  assumes "set xs = {a, b, c, d}" "P a" "\<not> P b" "P c" "\<not> P d"
  shows "set (filter P xs) = {a, c}"
  using assms by auto

lemma set_pair_nonempty: "set xs = {a, c} \<Longrightarrow> xs \<noteq> []"
  by auto

lemma sel1: "endswith (lower ''estabelecimentos1.zip'') ''.zip'' \<and> is_relevant_zip ''estabelecimentos1.zip''" by code_simp
lemma sel2: "\<not> (endswith (lower ''readme.txt'') ''.zip'' \<and> is_relevant_zip ''readme.txt'')" by code_simp
lemma sel3: "endswith (lower ''empresas2.zip'') ''.zip'' \<and> is_relevant_zip ''empresas2.zip''" by code_simp
lemma sel4: "\<not> (endswith (lower ''notes.zip'') ''.zip'' \<and> is_relevant_zip ''notes.zip'')" by code_simp

text \<open>
  Claim C9. A name of the listing is selected iff its lowercased form ends with
  \<^verbatim>\<open>.zip\<close> and starts with one of the four prefixes; the relevance predicate looks at
  the prefix only. The names of one answer are selected in the order of the answer, and
  every answer whose names are exactly \<^verbatim>\<open>estabelecimentos1.zip\<close>, \<^verbatim>\<open>readme.txt\<close>,
  \<^verbatim>\<open>empresas2.zip\<close> and \<^verbatim>\<open>notes.zip\<close> yields exactly the first and the third.
\<close>

theorem relevance_filter:
  "(is_relevant_zip n \<longleftrightarrow>
      (\<exists>p \<in> set [''estabelecimentos'', ''empresas'', ''cnae'', ''municipios'']. startswith (lower n) p))
   \<and> collect_zips (map Some texts) [] =
       Inr (filter (\<lambda>n. endswith (lower n) ''.zip'' \<and> is_relevant_zip n) (map href_name texts))
   \<and> (set (map href_name texts) = {''estabelecimentos1.zip'', ''readme.txt'', ''empresas2.zip'', ''notes.zip''}
       \<longrightarrow> (\<exists>zip_names. list_attempt (ListBody (map Some texts)) = Inr zip_names
              \<and> set zip_names = {''estabelecimentos1.zip'', ''empresas2.zip''}))"
proof (intro conjI impI)
  show "is_relevant_zip n \<longleftrightarrow>
      (\<exists>p \<in> set [''estabelecimentos'', ''empresas'', ''cnae'', ''municipios'']. startswith (lower n) p)"
    unfolding is_relevant_zip_def Let_def by (simp only: list.set bex_simps insert_iff empty_iff HOL.simp_thms)
  let ?sel = "\<lambda>n. endswith (lower n) ''.zip'' \<and> is_relevant_zip n"
  show c: "collect_zips (map Some texts) [] = Inr (filter ?sel (map href_name texts))"
    using collect_zips_filter[of texts "[]"] by (simp only: append_Nil)
  assume s: "set (map href_name texts) = {''estabelecimentos1.zip'', ''readme.txt'', ''empresas2.zip'', ''notes.zip''}"
  have f: "set (filter ?sel (map href_name texts)) = {''estabelecimentos1.zip'', ''empresas2.zip''}"
    by (rule filter_two_of_four[where P = ?sel, OF s]) (rule sel1 sel2 sel3 sel4)+
  have ne: "filter ?sel (map href_name texts) \<noteq> []"
    by (rule set_pair_nonempty[OF f])
  have "list_attempt (ListBody (map Some texts)) = Inr (filter ?sel (map href_name texts))"
    using ne by (simp add: list_attempt_def c)
  with f show "\<exists>zip_names. list_attempt (ListBody (map Some texts)) = Inr zip_names
              \<and> set zip_names = {''estabelecimentos1.zip'', ''empresas2.zip''}"
    by (intro exI conjI)
qed

theorem relevance_filter_witness:
  "set (map href_name [''/webdav/2024-05/estabelecimentos1.zip'', ''/webdav/2024-05/readme.txt'',
          ''/webdav/2024-05/empresas2.zip'', ''/webdav/2024-05/notes.zip''])
     = {''estabelecimentos1.zip'', ''readme.txt'', ''empresas2.zip'', ''notes.zip''}
   \<and> (\<exists>zip_names.
        list_attempt (ListBody (map Some [''/webdav/2024-05/estabelecimentos1.zip'',
          ''/webdav/2024-05/readme.txt'', ''/webdav/2024-05/empresas2.zip'',
          ''/webdav/2024-05/notes.zip''])) = Inr zip_names
        \<and> set zip_names = {''estabelecimentos1.zip'', ''empresas2.zip''})"
proof -
  let ?texts = "[''/webdav/2024-05/estabelecimentos1.zip'', ''/webdav/2024-05/readme.txt'',
          ''/webdav/2024-05/empresas2.zip'', ''/webdav/2024-05/notes.zip'']"
  have h: "map href_name ?texts
             = [''estabelecimentos1.zip'', ''readme.txt'', ''empresas2.zip'', ''notes.zip'']"
    by code_simp
  have s: "set (map href_name ?texts)
             = {''estabelecimentos1.zip'', ''readme.txt'', ''empresas2.zip'', ''notes.zip''}"
    by (simp only: h list.set)
  from relevance_filter[of "[]" ?texts] s show ?thesis
    by (intro conjI) (rule s, erule conjE, erule conjE, erule (1) mp)
qed

lemma is_month_folder_shape:
  assumes "length ys = 4" "list_all is_digit_char ys" "is_digit_char a" "is_digit_char b"
  shows "is_month_folder (ys @ ''-'' @ [a, b])"
  using assms by (auto simp: is_month_folder_def isdigit_def nth_append)

lemma str_int_four:
  assumes "1000 \<le> y" "y \<le> 9999"
  shows "length (str_int y) = 4 \<and> list_all is_digit_char (str_int y)"
proof -
  have n: "1000 \<le> nat y" "nat y \<le> 9999" using assms by auto
  have "str_int y = str_nat (nat y)" using assms by (simp add: str_int_def)
  moreover have "nat y div 1000 < 10" "nat y div 100 mod 10 < 10" "nat y div 10 mod 10 < 10"
    "nat y mod 10 < 10" using n by auto
  ultimately show ?thesis
    unfolding str_nat_four[OF n] by (simp add: digit_char_is_digit)
qed

text \<open>
  Claim C10. For a date with a month in \<open>1..12\<close>, the default month is the month whose
  count \<open>12 * year + month\<close> is one less than that of the date, printed as the year, a
  hyphen and two digits of the month; in January it is December of the year before. The
  year is printed without padding, so the result has the shape of a month folder (four
  digits, hyphen, two digits) for the years \<open>1001..9999\<close>.
\<close>

theorem default_month_is_previous:
  assumes "1 \<le> date_month today" "date_month today \<le> 12"
  shows "get_default_cnpj_month today =
           str_int ((12 * date_year today + date_month today - 2) div 12) @ ''-'' @
           [digit_char (nat ((12 * date_year today + date_month today - 2) mod 12 + 1) div 10),
            digit_char (nat ((12 * date_year today + date_month today - 2) mod 12 + 1) mod 10)]
         \<and> (date_month today = 1 \<longrightarrow>
              get_default_cnpj_month today = str_int (date_year today - 1) @ ''-12'')
         \<and> (1001 \<le> date_year today \<and> date_year today \<le> 9999 \<longrightarrow>
              is_month_folder (get_default_cnpj_month today))"
proof -
  define y where "y = date_year today"
  define m where "m = date_month today"
  define y' where "y' = (if m = 1 then y - 1 else y)"
  define m' where "m' = (if m = 1 then 12 else m - 1)"
  have m: "1 \<le> m" "m \<le> 12" using assms by (simp_all add: m_def)
  have m'r: "1 \<le> m'" "m' \<le> 12" using m by (auto simp: m'_def)
  have g: "get_default_cnpj_month today = str_int y' @ ''-'' @ fmt_02d m'"
    using m by (auto simp: get_default_cnpj_month_def Let_def y_def m_def y'_def m'_def)
  have idx: "(12 * y + m - 2) div 12 = y'" "(12 * y + m - 2) mod 12 + 1 = m'"
    using m by (auto simp: y'_def m'_def; presburger)+
  have f: "fmt_02d m' = [digit_char (nat m' div 10), digit_char (nat m' mod 10)]"
    by (rule fmt_02d_month[OF m'r])
  have dg: "is_digit_char (digit_char (nat m' div 10))" "is_digit_char (digit_char (nat m' mod 10))"
    using m'r by (auto intro!: digit_char_is_digit)
  have c1: "get_default_cnpj_month today =
           str_int ((12 * date_year today + date_month today - 2) div 12) @ ''-'' @
           [digit_char (nat ((12 * date_year today + date_month today - 2) mod 12 + 1) div 10),
            digit_char (nat ((12 * date_year today + date_month today - 2) mod 12 + 1) mod 10)]"
    using g f idx by (simp add: y_def m_def)
  have dec: "fmt_02d 12 = ''12''" by code_simp
  have c2: "date_month today = 1 \<longrightarrow>
              get_default_cnpj_month today = str_int (date_year today - 1) @ ''-12''"
    using g dec by (simp add: y'_def m'_def m_def y_def)
  have c3: "1001 \<le> date_year today \<and> date_year today \<le> 9999 \<longrightarrow>
              is_month_folder (get_default_cnpj_month today)"
  proof
    assume a: "1001 \<le> date_year today \<and> date_year today \<le> 9999"
    then have "1000 \<le> y'" "y' \<le> 9999" by (auto simp: y'_def y_def)
    from str_int_four[OF this] dg show "is_month_folder (get_default_cnpj_month today)"
      unfolding g f by (intro is_month_folder_shape) auto
  qed
  from c1 c2 c3 show ?thesis by (intro conjI)
qed

theorem default_month_is_previous_witness:
  "(1::int) \<le> 1 \<and> (1::int) \<le> 12 \<and> (1001::int) \<le> 2024 \<and> (2024::int) \<le> 9999
   \<and> get_default_cnpj_month \<lparr>date_year = 2024, date_month = 1, date_day = 15\<rparr> = ''2023-12''
   \<and> is_month_folder (get_default_cnpj_month \<lparr>date_year = 2024, date_month = 1, date_day = 15\<rparr>)"
proof -
  let ?d = "\<lparr>date_year = 2024, date_month = 1, date_day = 15\<rparr>"
  have p: "1 \<le> date_month ?d" "date_month ?d \<le> 12" by simp_all
  note t = default_month_is_previous[OF p]
  have s: "str_int (2024 - 1) @ ''-12'' = ''2023-12''" by code_simp
  have g: "get_default_cnpj_month ?d = ''2023-12''"
    using t[THEN conjunct2, THEN conjunct1] s by simp
  have im: "is_month_folder (get_default_cnpj_month ?d)"
    using t[THEN conjunct2, THEN conjunct2] by simp
  from g im show ?thesis by simp
qed


section \<open>The listing loop\<close>

lemma emit_simps [simp]:
  "fs (emit e w) = fs w" "nlist (emit e w) = nlist w" "ngets (emit e w) = ngets w"
  "trace (emit e w) = trace w @ [e]"
  by (simp_all add: emit_def)

lemma sent_propfind_simps [simp]:
  "fs (sent_propfind url w) = fs w" "nlist (sent_propfind url w) = Suc (nlist w)"
  "ngets (sent_propfind url w) = ngets w"
  "trace (sent_propfind url w) = trace w @ [Propfind url]"
  by (simp_all add: sent_propfind_def)

lemma sent_get_simps [simp]:
  "fs (sent_get url w) = fs w" "nlist (sent_get url w) = nlist w"
  "ngets (sent_get url w) = (ngets w)(url := Suc (ngets w url))"
  "trace (sent_get url w) = trace w @ [Get url]"
  by (simp_all add: sent_get_def)

lemma list_loop_out: "retries < a \<Longrightarrow> list_loop env mon retries a w = (Inr [], w)"
  by (subst list_loop.simps) simp

lemma list_loop_ok:
  "a \<le> retries \<Longrightarrow> list_attempt (propfind_zips env (month_url mon) (nlist w)) = Inr zs
     \<Longrightarrow> list_loop env mon retries a w = (Inr zs, sent_propfind (month_url mon) w)"
  by (subst list_loop.simps) (simp add: Let_def)

lemma list_loop_last:
  "a = retries \<Longrightarrow> list_attempt (propfind_zips env (month_url mon) (nlist w)) = Inl e
     \<Longrightarrow> list_loop env mon retries a w
           = (Inl (RuntimeError (''Failed to list ZIPs for '' @ mon)), sent_propfind (month_url mon) w)"
  by (subst list_loop.simps) (simp add: Let_def)

lemma list_loop_retry:
  "a < retries \<Longrightarrow> list_attempt (propfind_zips env (month_url mon) (nlist w)) = Inl e
     \<Longrightarrow> list_loop env mon retries a w
           = list_loop env mon retries (Suc a) (emit (Sleep (3 * a\<^sup>2)) (sent_propfind (month_url mon) w))"
  by (subst list_loop.simps) (simp add: Let_def)

lemma list_loop_cases [case_names out ok last retry]:
  assumes "\<And>a w. retries < a \<Longrightarrow> P a w (Inr [], w)"
    and "\<And>a w zs. a \<le> retries
           \<Longrightarrow> list_attempt (propfind_zips env (month_url mon) (nlist w)) = Inr zs
           \<Longrightarrow> P a w (Inr zs, sent_propfind (month_url mon) w)"
    and "\<And>a w e. a = retries
           \<Longrightarrow> list_attempt (propfind_zips env (month_url mon) (nlist w)) = Inl e
           \<Longrightarrow> P a w (Inl (RuntimeError (''Failed to list ZIPs for '' @ mon)), sent_propfind (month_url mon) w)"
    and "\<And>a w e res. a < retries
           \<Longrightarrow> list_attempt (propfind_zips env (month_url mon) (nlist w)) = Inl e
           \<Longrightarrow> res = list_loop env mon retries (Suc a) (emit (Sleep (3 * a\<^sup>2)) (sent_propfind (month_url mon) w))
           \<Longrightarrow> P (Suc a) (emit (Sleep (3 * a\<^sup>2)) (sent_propfind (month_url mon) w)) res
           \<Longrightarrow> P a w res"
  shows "P a w (list_loop env mon retries a w)"
proof (induction "Suc retries - a" arbitrary: a w)
  case 0
  then have "retries < a" by simp
  then show ?case using assms(1) by (simp add: list_loop_out)
next
  case (Suc n)
  then have le: "a \<le> retries" by simp
  show ?case
  proof (cases "list_attempt (propfind_zips env (month_url mon) (nlist w))")
    case (Inr zs)
    with le show ?thesis using assms(2) by (simp add: list_loop_ok)
  next
    case (Inl e)
    show ?thesis
    proof (cases "a = retries")
      case True
      with Inl show ?thesis using assms(3) by (simp add: list_loop_last)
    next
      case False
      with le have lt: "a < retries" by simp
      have "n = Suc retries - Suc a" using Suc.hyps(2) by simp
      from Suc.hyps(1)[OF this] assms(4)[OF lt Inl refl] show ?thesis
        by (simp add: list_loop_retry[OF lt Inl])
    qed
  qed
qed

lemma list_loop_frame:
  "fs (snd (list_loop env mon retries a w)) = fs w
   \<and> ngets (snd (list_loop env mon retries a w)) = ngets w"
  by (rule list_loop_cases) simp_all

lemma list_loop_Inr_nonempty:
  "list_loop env mon retries a w = (Inr zs, w') \<Longrightarrow> a \<le> retries \<Longrightarrow> zs \<noteq> []"
proof -
  have "\<forall>zs. fst (list_loop env mon retries a w) = Inr zs \<longrightarrow> a \<le> retries \<longrightarrow> zs \<noteq> []"
    by (rule list_loop_cases) (auto simp: list_attempt_def split: zips_response.splits sum.splits if_splits)
  then show "list_loop env mon retries a w = (Inr zs, w') \<Longrightarrow> a \<le> retries \<Longrightarrow> zs \<noteq> []"
    by simp
qed

lemma list_loop_Inl:
  "list_loop env mon retries a w = (Inl e, w') \<Longrightarrow>
     e = RuntimeError (''Failed to list ZIPs for '' @ mon) \<and> a \<le> retries
     \<and> nlist w' = nlist w + (Suc retries - a)"
proof -
  have "\<forall>e. fst (list_loop env mon retries a w) = Inl e \<longrightarrow>
     e = RuntimeError (''Failed to list ZIPs for '' @ mon) \<and> a \<le> retries
     \<and> nlist (snd (list_loop env mon retries a w)) = nlist w + (Suc retries - a)"
    by (rule list_loop_cases) auto
  then show "list_loop env mon retries a w = (Inl e, w') \<Longrightarrow>
     e = RuntimeError (''Failed to list ZIPs for '' @ mon) \<and> a \<le> retries
     \<and> nlist w' = nlist w + (Suc retries - a)"
    by simp
qed


section \<open>The events of the listing loop\<close>

lemma retry_events_step:
  "1 \<le> n \<Longrightarrow>
   concat (map f [a..<a + Suc n - 1]) = f a @ concat (map f [Suc a..<Suc a + n - 1])"
  by (simp add: upt_conv_Cons)

lemma list_loop_trace:
  "\<exists>n. nlist (snd (list_loop env mon retries a w)) = nlist w + n
     \<and> (a \<le> retries \<longrightarrow> 1 \<le> n) \<and> (retries < a \<longrightarrow> n = 0) \<and> n \<le> Suc retries - a
     \<and> trace (snd (list_loop env mon retries a w)) =
         trace w @ concat (map (\<lambda>k. [Propfind (month_url mon), Sleep (3 * k\<^sup>2)]) [a..<a + n - 1])
                 @ (if n = 0 then [] else [Propfind (month_url mon)])"
proof -
  let ?f = "\<lambda>k. [Propfind (month_url mon), Sleep (3 * k\<^sup>2)]"
  let ?Q = "\<lambda>a w (res :: (exc + string list) \<times> world).
     \<exists>n. nlist (snd res) = nlist w + n
     \<and> (a \<le> retries \<longrightarrow> 1 \<le> n) \<and> (retries < a \<longrightarrow> n = 0) \<and> n \<le> Suc retries - a
     \<and> trace (snd res) = trace w @ concat (map ?f [a..<a + n - 1])
                 @ (if n = 0 then [] else [Propfind (month_url mon)])"
  have "?Q a w (list_loop env mon retries a w)"
  proof (rule list_loop_cases[where P = ?Q])
    fix a w assume "retries < a"
    then show "?Q a w (Inr [], w)"
      by (intro exI[of _ 0]) simp
  next
    fix a w zs assume "a \<le> retries"
    then show "?Q a w (Inr zs, sent_propfind (month_url mon) w)"
      by (intro exI[of _ 1]) simp
  next
    fix a w assume "a = retries"
    then show "?Q a w (Inl (RuntimeError (''Failed to list ZIPs for '' @ mon)),
                       sent_propfind (month_url mon) w)"
      by (intro exI[of _ 1]) simp
  next
    fix a w and res :: "(exc + string list) \<times> world"
    let ?w2 = "emit (Sleep (3 * a\<^sup>2)) (sent_propfind (month_url mon) w)"
    assume lt: "a < retries"
    assume "?Q (Suc a) ?w2 res"
    then obtain n where n: "nlist (snd res) = nlist ?w2 + n" "1 \<le> n" "n \<le> Suc retries - Suc a"
      and t: "trace (snd res) = trace ?w2 @ concat (map ?f [Suc a..<Suc a + n - 1])
                   @ (if n = 0 then [] else [Propfind (month_url mon)])"
      using lt by auto
    have c: "concat (map ?f [a..<a + Suc n - 1]) = ?f a @ concat (map ?f [Suc a..<Suc a + n - 1])"
      using n(2) by (rule retry_events_step)
    have "nlist (snd res) = nlist w + Suc n" using n(1) by simp
    moreover have "Suc n \<le> Suc retries - a" using n(3) lt by simp
    moreover have "trace (snd res) = trace w @ concat (map ?f [a..<a + Suc n - 1])
                 @ (if Suc n = 0 then [] else [Propfind (month_url mon)])"
      unfolding t c using n(2) by simp
    ultimately show "?Q a w res"
      using lt by (intro exI[of _ "Suc n"]) (simp only: simp_thms, simp)
  qed
  then show ?thesis .
qed

lemma list_month_zips_trace:
  assumes "list_month_zips env mon retries w = (r, w')"
  shows "nlist w \<le> nlist w' \<and> nlist w' - nlist w \<le> retries \<and>
         trace w' = trace w
           @ concat (map (\<lambda>k. [Propfind (month_url mon), Sleep (3 * k\<^sup>2)]) [1..<nlist w' - nlist w])
           @ (if nlist w' = nlist w then [] else [Propfind (month_url mon)])"
proof -
  from list_loop_trace[of env mon retries 1 w] assms
  obtain n where n: "nlist w' = nlist w + n" "n \<le> retries" "1 \<le> retries \<longrightarrow> 1 \<le> n" "retries < 1 \<longrightarrow> n = 0"
    and t: "trace w' = trace w @ concat (map (\<lambda>k. [Propfind (month_url mon), Sleep (3 * k\<^sup>2)]) [1..<1 + n - 1])
                 @ (if n = 0 then [] else [Propfind (month_url mon)])"
    by (auto simp: list_month_zips_def)
  have "[1..<1 + n - 1] = [1..<n]" by (cases n) simp_all
  with n t show ?thesis by simp
qed


section \<open>The transfer loop\<close>

lemma download_loop_out:
  "retries < a \<Longrightarrow> download_loop env url out_path retries a w = (Inr (), w)"
  by (subst download_loop.simps) simp

lemma download_loop_ok:
  "a \<le> retries \<Longrightarrow>
   transfer_attempt (get_file env url (ngets w url)) out_path (fs w) = (Inr u, files) \<Longrightarrow>
   download_loop env url out_path retries a w = (Inr (), (sent_get url w)\<lparr>fs := files\<rparr>)"
  by (subst download_loop.simps) (simp add: Let_def)

lemma download_loop_uncaught:
  "a \<le> retries \<Longrightarrow>
   transfer_attempt (get_file env url (ngets w url)) out_path (fs w) = (Inl e, files) \<Longrightarrow>
   \<not> caught e \<Longrightarrow>
   download_loop env url out_path retries a w = (Inl e, (sent_get url w)\<lparr>fs := files\<rparr>)"
  by (subst download_loop.simps) (simp add: Let_def)

lemma download_loop_last:
  "a = retries \<Longrightarrow>
   transfer_attempt (get_file env url (ngets w url)) out_path (fs w) = (Inl e, files) \<Longrightarrow>
   caught e \<Longrightarrow>
   download_loop env url out_path retries a w
     = (Inl e, (sent_get url w)\<lparr>fs := files(out_path := None)\<rparr>)"
  by (subst download_loop.simps) (simp add: Let_def)

lemma download_loop_retry:
  "a < retries \<Longrightarrow>
   transfer_attempt (get_file env url (ngets w url)) out_path (fs w) = (Inl e, files) \<Longrightarrow>
   caught e \<Longrightarrow>
   download_loop env url out_path retries a w
     = download_loop env url out_path retries (Suc a)
         (emit (Sleep (3 * a\<^sup>2)) ((sent_get url w)\<lparr>fs := files(out_path := None)\<rparr>))"
  by (subst download_loop.simps) (simp add: Let_def)

lemma download_loop_cases [case_names out ok uncaught last retry]:
  assumes "\<And>a w. retries < a \<Longrightarrow> P a w (Inr (), w)"
    and "\<And>a w u files. a \<le> retries
           \<Longrightarrow> transfer_attempt (get_file env url (ngets w url)) out_path (fs w) = (Inr u, files)
           \<Longrightarrow> P a w (Inr (), (sent_get url w)\<lparr>fs := files\<rparr>)"
    and "\<And>a w e files. a \<le> retries
           \<Longrightarrow> transfer_attempt (get_file env url (ngets w url)) out_path (fs w) = (Inl e, files)
           \<Longrightarrow> \<not> caught e
           \<Longrightarrow> P a w (Inl e, (sent_get url w)\<lparr>fs := files\<rparr>)"
    and "\<And>a w e files. a = retries
           \<Longrightarrow> transfer_attempt (get_file env url (ngets w url)) out_path (fs w) = (Inl e, files)
           \<Longrightarrow> caught e
           \<Longrightarrow> P a w (Inl e, (sent_get url w)\<lparr>fs := files(out_path := None)\<rparr>)"
    and "\<And>a w e files res. a < retries
           \<Longrightarrow> transfer_attempt (get_file env url (ngets w url)) out_path (fs w) = (Inl e, files)
           \<Longrightarrow> caught e
           \<Longrightarrow> P (Suc a)
                 (emit (Sleep (3 * a\<^sup>2)) ((sent_get url w)\<lparr>fs := files(out_path := None)\<rparr>)) res
           \<Longrightarrow> P a w res"
  shows "P a w (download_loop env url out_path retries a w)"
proof (induction "Suc retries - a" arbitrary: a w)
  case 0
  then have "retries < a" by simp
  then show ?case using assms(1) by (simp add: download_loop_out)
next
  case (Suc n)
  then have le: "a \<le> retries" by simp
  obtain r files where ta:
    "transfer_attempt (get_file env url (ngets w url)) out_path (fs w) = (r, files)"
    by (cases "transfer_attempt (get_file env url (ngets w url)) out_path (fs w)")
  show ?case
  proof (cases r)
    case (Inr u)
    with le ta show ?thesis using assms(2) by (simp add: download_loop_ok)
  next
    case (Inl e)
    note ta' = ta[unfolded Inl]
    show ?thesis
    proof (cases "caught e")
      case False
      with le ta' show ?thesis using assms(3) by (simp add: download_loop_uncaught)
    next
      case True
      show ?thesis
      proof (cases "a = retries")
        case True
        with ta' \<open>caught e\<close> show ?thesis using assms(4) by (simp add: download_loop_last)
      next
        case False
        with le have lt: "a < retries" by simp
        have "n = Suc retries - Suc a" using Suc.hyps(2) by simp
        from Suc.hyps(1)[OF this] assms(5)[OF lt ta' True] show ?thesis
          by (simp add: download_loop_retry[OF lt ta' True])
      qed
    qed
  qed
qed

lemma transfer_attempt_frame:
  "transfer_attempt r out_path files = (res, files') \<Longrightarrow> p \<noteq> out_path \<Longrightarrow> files' p = files p"
  by (auto simp: transfer_attempt_def Let_def split: get_response.splits if_splits prod.splits option.splits)

lemma download_loop_frame:
  "nlist (snd (download_loop env url out_path retries a w)) = nlist w
   \<and> (\<forall>p. p \<noteq> out_path \<longrightarrow> fs (snd (download_loop env url out_path retries a w)) p = fs w p)
   \<and> (\<forall>u. u \<noteq> url \<longrightarrow> ngets (snd (download_loop env url out_path retries a w)) u = ngets w u)"
proof -
  let ?Q = "\<lambda>(a::nat) w (res :: (exc + unit) \<times> world).
     nlist (snd res) = nlist w \<and> (\<forall>p. p \<noteq> out_path \<longrightarrow> fs (snd res) p = fs w p)
     \<and> (\<forall>u. u \<noteq> url \<longrightarrow> ngets (snd res) u = ngets w u)"
  have "?Q a w (download_loop env url out_path retries a w)"
    by (rule download_loop_cases[where P = ?Q]) (auto dest: transfer_attempt_frame)
  then show ?thesis .
qed

lemma download_loop_unlinks:
  "\<forall>e. fst (download_loop env url out_path retries a w) = Inl e \<longrightarrow> caught e \<longrightarrow>
        fs (snd (download_loop env url out_path retries a w)) out_path = None"
proof -
  let ?Q = "\<lambda>(a::nat) (w::world) (res :: (exc + unit) \<times> world).
     \<forall>e. fst res = Inl e \<longrightarrow> caught e \<longrightarrow> fs (snd res) out_path = None"
  have "?Q a w (download_loop env url out_path retries a w)"
    by (rule download_loop_cases[where P = ?Q]) auto
  then show ?thesis .
qed

lemma download_loop_trace:
  "\<exists>n. ngets (snd (download_loop env url out_path retries a w)) url = ngets w url + n
     \<and> (a \<le> retries \<longrightarrow> 1 \<le> n) \<and> (retries < a \<longrightarrow> n = 0) \<and> n \<le> Suc retries - a
     \<and> trace (snd (download_loop env url out_path retries a w)) =
         trace w @ concat (map (\<lambda>k. [Get url, Sleep (3 * k\<^sup>2)]) [a..<a + n - 1])
                 @ (if n = 0 then [] else [Get url])"
proof -
  let ?f = "\<lambda>k. [Get url, Sleep (3 * k\<^sup>2)]"
  let ?Q = "\<lambda>a w (res :: (exc + unit) \<times> world).
     \<exists>n. ngets (snd res) url = ngets w url + n
     \<and> (a \<le> retries \<longrightarrow> 1 \<le> n) \<and> (retries < a \<longrightarrow> n = 0) \<and> n \<le> Suc retries - a
     \<and> trace (snd res) = trace w @ concat (map ?f [a..<a + n - 1])
                 @ (if n = 0 then [] else [Get url])"
  have "?Q a w (download_loop env url out_path retries a w)"
  proof (rule download_loop_cases[where P = ?Q])
    fix a w assume "retries < a"
    then show "?Q a w (Inr (), w)"
      by (intro exI[of _ 0]) simp
  next
    fix a w files assume "a \<le> retries"
    then show "?Q a w (Inr (), (sent_get url w)\<lparr>fs := files\<rparr>)"
      by (intro exI[of _ 1]) simp
  next
    fix a w e files assume "a \<le> retries"
    then show "?Q a w (Inl e, (sent_get url w)\<lparr>fs := files\<rparr>)"
      by (intro exI[of _ 1]) simp
  next
    fix a w e files assume "a = retries"
    then show "?Q a w (Inl e, (sent_get url w)\<lparr>fs := files(out_path := None)\<rparr>)"
      by (intro exI[of _ 1]) simp
  next
    fix a w files and res :: "(exc + unit) \<times> world"
    let ?w2 = "emit (Sleep (3 * a\<^sup>2)) ((sent_get url w)\<lparr>fs := files(out_path := None)\<rparr>)"
    assume lt: "a < retries"
    assume "?Q (Suc a) ?w2 res"
    then obtain n where n: "ngets (snd res) url = ngets ?w2 url + n" "1 \<le> n" "n \<le> Suc retries - Suc a"
      and t: "trace (snd res) = trace ?w2 @ concat (map ?f [Suc a..<Suc a + n - 1])
                   @ (if n = 0 then [] else [Get url])"
      using lt by auto
    have c: "concat (map ?f [a..<a + Suc n - 1]) = ?f a @ concat (map ?f [Suc a..<Suc a + n - 1])"
      using n(2) by (rule retry_events_step)
    have "ngets (snd res) url = ngets w url + Suc n" using n(1) by simp
    moreover have "Suc n \<le> Suc retries - a" using n(3) lt by simp
    moreover have "trace (snd res) = trace w @ concat (map ?f [a..<a + Suc n - 1])
                 @ (if Suc n = 0 then [] else [Get url])"
      unfolding t c using n(2) by simp
    ultimately show "?Q a w res"
      using lt by (intro exI[of _ "Suc n"]) (simp only: simp_thms, simp)
  qed
  then show ?thesis .
qed


section \<open>Empty listings\<close>

lemma list_loop_all_fail:
  "(\<forall>k < Suc retries - a. \<exists>e. list_attempt (propfind_zips env (month_url mon) (nlist w + k)) = Inl e)
     \<longrightarrow> a \<le> retries
     \<longrightarrow> fst (list_loop env mon retries a w) = Inl (RuntimeError (''Failed to list ZIPs for '' @ mon))"
proof -
  let ?Q = "\<lambda>(a::nat) (w::world) (res :: (exc + string list) \<times> world).
     (\<forall>k < Suc retries - a. \<exists>e. list_attempt (propfind_zips env (month_url mon) (nlist w + k)) = Inl e)
     \<longrightarrow> a \<le> retries
     \<longrightarrow> fst res = Inl (RuntimeError (''Failed to list ZIPs for '' @ mon))"
  have "?Q a w (list_loop env mon retries a w)"
  proof (rule list_loop_cases[where P = ?Q])
    fix a :: nat and w :: world assume "retries < a"
    then show "?Q a w (Inr [], w)" by simp
  next
    fix a :: nat and w :: world and zs
    assume le: "a \<le> retries"
      and ok: "list_attempt (propfind_zips env (month_url mon) (nlist w)) = Inr zs"
    show "?Q a w (Inr zs, sent_propfind (month_url mon) w)"
    proof (intro impI)
      assume "\<forall>k < Suc retries - a. \<exists>e. list_attempt (propfind_zips env (month_url mon) (nlist w + k)) = Inl e"
      moreover have "0 < Suc retries - a" using le by simp
      ultimately have "\<exists>e. list_attempt (propfind_zips env (month_url mon) (nlist w + 0)) = Inl e"
        by blast
      with ok show "fst (Inr zs, sent_propfind (month_url mon) w)
                      = Inl (RuntimeError (''Failed to list ZIPs for '' @ mon))" by simp
    qed
  next
    fix a :: nat and w :: world assume "a = retries"
    show "?Q a w (Inl (RuntimeError (''Failed to list ZIPs for '' @ mon)),
                       sent_propfind (month_url mon) w)" by simp
  next
    fix a :: nat and w :: world and res :: "(exc + string list) \<times> world"
    let ?w2 = "emit (Sleep (3 * a\<^sup>2)) (sent_propfind (month_url mon) w)"
    assume lt: "a < retries" and ih: "?Q (Suc a) ?w2 res"
    show "?Q a w res"
    proof (intro impI)
      assume all: "\<forall>k < Suc retries - a. \<exists>e. list_attempt (propfind_zips env (month_url mon) (nlist w + k)) = Inl e"
      have "\<forall>k < Suc retries - Suc a. \<exists>e. list_attempt (propfind_zips env (month_url mon) (nlist ?w2 + k)) = Inl e"
      proof (intro allI impI)
        fix k assume "k < Suc retries - Suc a"
        then have "Suc k < Suc retries - a" by simp
        with all have "\<exists>e. list_attempt (propfind_zips env (month_url mon) (nlist w + Suc k)) = Inl e"
          by blast
        then show "\<exists>e. list_attempt (propfind_zips env (month_url mon) (nlist ?w2 + k)) = Inl e"
          by simp
      qed
      with ih lt show "fst res = Inl (RuntimeError (''Failed to list ZIPs for '' @ mon))" by simp
    qed
  qed
  then show ?thesis .
qed

lemma list_attempt_Inr:
  "list_attempt r = Inr zs \<Longrightarrow> \<exists>elems. r = ListBody elems \<and> collect_zips elems [] = Inr zs \<and> zs \<noteq> []"
  by (auto simp: list_attempt_def split: zips_response.splits sum.splits if_splits)

lemma list_attempt_empty:
  "collect_zips elems [] = Inr [] \<Longrightarrow> list_attempt (ListBody elems) = Inl (RuntimeError ''No ZIPs found'')"
  by (simp add: list_attempt_def)

lemma list_loop_empty_as_raise:
  "list_loop (env\<lparr>propfind_zips := \<lambda>u k.
             case propfind_zips env u k of
               ListRaise e \<Rightarrow> ListRaise e
             | ListBody elems \<Rightarrow>
                 if collect_zips elems [] = Inr [] then ListRaise URLError else ListBody elems\<rparr>)
      mon retries a w = list_loop env mon retries a w"
proof -
  define env' where "env' = env\<lparr>propfind_zips := \<lambda>u k.
             case propfind_zips env u k of
               ListRaise e \<Rightarrow> ListRaise e
             | ListBody elems \<Rightarrow>
                 if collect_zips elems [] = Inr [] then ListRaise URLError else ListBody elems\<rparr>"
  have same: "list_attempt (propfind_zips env' u k) = Inr zs"
    if "list_attempt (propfind_zips env u k) = Inr zs" for u k zs
    using list_attempt_Inr[OF that] that by (auto simp: env'_def)
  have fail: "\<exists>e'. list_attempt (propfind_zips env' u k) = Inl e'"
    if "list_attempt (propfind_zips env u k) = Inl e" for u k e
    using that by (cases "propfind_zips env u k")
      (auto simp: env'_def list_attempt_def split: sum.splits if_splits)
  let ?Q = "\<lambda>(a::nat) (w::world) (res :: (exc + string list) \<times> world). list_loop env' mon retries a w = res"
  have "?Q a w (list_loop env mon retries a w)"
  proof (rule list_loop_cases[where P = ?Q])
    fix a :: nat and w :: world assume "retries < a"
    then show "?Q a w (Inr [], w)" by (simp add: list_loop_out)
  next
    fix a :: nat and w :: world and zs
    assume "a \<le> retries" "list_attempt (propfind_zips env (month_url mon) (nlist w)) = Inr zs"
    then show "?Q a w (Inr zs, sent_propfind (month_url mon) w)"
      by (simp add: list_loop_ok same)
  next
    fix a :: nat and w :: world and e
    assume a: "a = retries" and "list_attempt (propfind_zips env (month_url mon) (nlist w)) = Inl e"
    from fail[OF this(2)] obtain e' where
      "list_attempt (propfind_zips env' (month_url mon) (nlist w)) = Inl e'" ..
    with a show "?Q a w (Inl (RuntimeError (''Failed to list ZIPs for '' @ mon)),
                       sent_propfind (month_url mon) w)"
      by (simp add: list_loop_last)
  next
    fix a :: nat and w :: world and e and res :: "(exc + string list) \<times> world"
    let ?w2 = "emit (Sleep (3 * a\<^sup>2)) (sent_propfind (month_url mon) w)"
    assume lt: "a < retries" and "list_attempt (propfind_zips env (month_url mon) (nlist w)) = Inl e"
      and ih: "?Q (Suc a) ?w2 res"
    from fail[OF this(2)] obtain e' where
      "list_attempt (propfind_zips env' (month_url mon) (nlist w)) = Inl e'" ..
    from list_loop_retry[OF lt this] ih show "?Q a w res" by simp
  qed
  then show ?thesis unfolding env'_def .
qed

text \<open>
  Claim C5. A listing answer with no relevant entry fails the attempt; the loop handles it
  as it handles an answer that raised (replacing every such answer by a transport error
  changes neither the result nor the state). Five such answers in a row make the listing
  fail with the error that names the month, after exactly five requests; no listing error
  arises before the fifth request, and a listing that returns never returns the empty list.
\<close>

theorem empty_listing_is_retried:
  "(collect_zips elems [] = Inr [] \<longrightarrow>
      list_attempt (ListBody elems) = Inl (RuntimeError ''No ZIPs found''))
   \<and> list_month_zips
        (env\<lparr>propfind_zips := \<lambda>u k.
             case propfind_zips env u k of
               ListRaise e \<Rightarrow> ListRaise e
             | ListBody elems \<Rightarrow>
                 if collect_zips elems [] = Inr [] then ListRaise URLError else ListBody elems\<rparr>)
        mon retries w
       = list_month_zips env mon retries w
   \<and> ((\<forall>k<5. \<exists>elems. propfind_zips env (month_url mon) (nlist w + k) = ListBody elems
                      \<and> collect_zips elems [] = Inr [])
        \<longrightarrow> (\<exists>w'. list_month_zips env mon 5 w
                     = (Inl (RuntimeError (''Failed to list ZIPs for '' @ mon)), w')
                  \<and> nlist w' = nlist w + 5))
   \<and> (list_month_zips env mon 5 w = (Inl e, w')
        \<longrightarrow> e = RuntimeError (''Failed to list ZIPs for '' @ mon) \<and> nlist w' = nlist w + 5)
   \<and> (list_month_zips env mon 5 w = (Inr zs, w') \<longrightarrow> zs \<noteq> [])"
proof (intro conjI impI)
  assume "collect_zips elems [] = Inr []"
  then show "list_attempt (ListBody elems) = Inl (RuntimeError ''No ZIPs found'')"
    by (rule list_attempt_empty)
next
  show "list_month_zips
        (env\<lparr>propfind_zips := \<lambda>u k.
             case propfind_zips env u k of
               ListRaise e \<Rightarrow> ListRaise e
             | ListBody elems \<Rightarrow>
                 if collect_zips elems [] = Inr [] then ListRaise URLError else ListBody elems\<rparr>)
        mon retries w
       = list_month_zips env mon retries w"
    unfolding list_month_zips_def by (rule list_loop_empty_as_raise)
next
  assume all: "\<forall>k<5. \<exists>elems. propfind_zips env (month_url mon) (nlist w + k) = ListBody elems
                      \<and> collect_zips elems [] = Inr []"
  have "\<forall>k < Suc 5 - 1. \<exists>e. list_attempt (propfind_zips env (month_url mon) (nlist w + k)) = Inl e"
  proof (intro allI impI)
    fix k :: nat assume "k < Suc 5 - 1"
    then have "k < 5" by simp
    with all obtain elems where "propfind_zips env (month_url mon) (nlist w + k) = ListBody elems"
      "collect_zips elems [] = Inr []" by blast
    then show "\<exists>e. list_attempt (propfind_zips env (month_url mon) (nlist w + k)) = Inl e"
      by (simp add: list_attempt_empty)
  qed
  with list_loop_all_fail[of 5 1 env mon w]
  have f: "fst (list_loop env mon 5 1 w) = Inl (RuntimeError (''Failed to list ZIPs for '' @ mon))"
    by simp
  then have eq: "list_loop env mon 5 1 w
      = (Inl (RuntimeError (''Failed to list ZIPs for '' @ mon)), snd (list_loop env mon 5 1 w))"
    by (simp add: prod_eq_iff)
  from list_loop_Inl[OF eq] eq
  show "\<exists>w'. list_month_zips env mon 5 w
                     = (Inl (RuntimeError (''Failed to list ZIPs for '' @ mon)), w')
                  \<and> nlist w' = nlist w + 5"
    unfolding list_month_zips_def by (intro exI[of _ "snd (list_loop env mon 5 1 w)"]) simp
next
  assume "list_month_zips env mon 5 w = (Inl e, w')"
  then have "list_loop env mon 5 1 w = (Inl e, w')" by (simp add: list_month_zips_def)
  from list_loop_Inl[OF this]
  show "e = RuntimeError (''Failed to list ZIPs for '' @ mon)" "nlist w' = nlist w + 5"
    by simp_all
next
  assume "list_month_zips env mon 5 w = (Inr zs, w')"
  then have "list_loop env mon 5 1 w = (Inr zs, w')" by (simp add: list_month_zips_def)
  from list_loop_Inr_nonempty[OF this] show "zs \<noteq> []" by simp
qed


section \<open>Backoff\<close>

theorem empty_listing_is_retried_witness:
  "collect_zips [Some ''/webdav/2024-05/'', Some ''/webdav/2024-05/readme.txt''] [] = Inr []
   \<and> fst (list_month_zips
         \<lparr>propfind_zips = \<lambda>u k. ListBody [Some ''/webdav/2024-05/'', Some ''/webdav/2024-05/readme.txt''],
          propfind_folders = \<lambda>k. FoldersRaise URLError,
          get_file = \<lambda>u k. GetRaise URLError\<rparr>
         ''2024-05'' 5
         \<lparr>fs = \<lambda>p. None, nlist = 0, ngets = \<lambda>u. 0, trace = []\<rparr>)
      = Inl (RuntimeError ''Failed to list ZIPs for 2024-05'')
   \<and> nlist (snd (list_month_zips
         \<lparr>propfind_zips = \<lambda>u k. ListBody [Some ''/webdav/2024-05/'', Some ''/webdav/2024-05/readme.txt''],
          propfind_folders = \<lambda>k. FoldersRaise URLError,
          get_file = \<lambda>u k. GetRaise URLError\<rparr>
         ''2024-05'' 5
         \<lparr>fs = \<lambda>p. None, nlist = 0, ngets = \<lambda>u. 0, trace = []\<rparr>)) = 5"
proof -
  let ?elems = "[Some ''/webdav/2024-05/'', Some ''/webdav/2024-05/readme.txt'']"
  let ?env = "\<lparr>propfind_zips = \<lambda>u k. ListBody ?elems,
          propfind_folders = \<lambda>k. FoldersRaise URLError,
          get_file = \<lambda>u k. GetRaise URLError\<rparr>"
  let ?w = "\<lparr>fs = \<lambda>p. None, nlist = 0, ngets = \<lambda>u. 0, trace = []\<rparr> :: world"
  have c: "collect_zips ?elems [] = Inr []" by code_simp
  have h: "\<forall>k<5. \<exists>elems. propfind_zips ?env (month_url ''2024-05'') (nlist ?w + k) = ListBody elems
                      \<and> collect_zips elems [] = Inr []"
    using c by simp
  from empty_listing_is_retried[where env = ?env and mon = "''2024-05''" and w = ?w,
      THEN conjunct2, THEN conjunct2, THEN conjunct1, THEN mp, OF h]
  obtain w' where "list_month_zips ?env ''2024-05'' 5 ?w
                     = (Inl (RuntimeError (''Failed to list ZIPs for '' @ ''2024-05'')), w')"
    "nlist w' = nlist ?w + 5" by blast
  with c show ?thesis by simp
qed

text \<open>
  Claim C8. The events of a listing and of a transfer: every request but the last is
  followed by a sleep of \<open>3 * k\<^sup>2\<close> seconds, \<open>k\<close> the number of the attempt that failed,
  and nothing follows the last request. So the wait before attempt 2 is 3, the wait before
  attempt 3 is 12, and no time is waited after the final attempt.
\<close>

theorem backoff_delays:
  "(list_month_zips env mon retries w = (r, w') \<longrightarrow>
      nlist w \<le> nlist w' \<and> nlist w' - nlist w \<le> retries \<and>
      trace w' = trace w
        @ concat (map (\<lambda>k. [Propfind (month_url mon), Sleep (3 * k\<^sup>2)]) [1..<nlist w' - nlist w])
        @ (if nlist w' = nlist w then [] else [Propfind (month_url mon)]))
   \<and> (download_file env url out_path tries w = (r2, w2) \<longrightarrow>
      ngets w url \<le> ngets w2 url \<and> ngets w2 url - ngets w url \<le> tries \<and>
      trace w2 = trace w
        @ concat (map (\<lambda>k. [Get url, Sleep (3 * k\<^sup>2)]) [1..<ngets w2 url - ngets w url])
        @ (if ngets w2 url = ngets w url then [] else [Get url]))"
proof (intro conjI impI)
  assume "list_month_zips env mon retries w = (r, w')"
  from list_month_zips_trace[OF this]
  show "nlist w \<le> nlist w'" "nlist w' - nlist w \<le> retries"
    "trace w' = trace w
        @ concat (map (\<lambda>k. [Propfind (month_url mon), Sleep (3 * k\<^sup>2)]) [1..<nlist w' - nlist w])
        @ (if nlist w' = nlist w then [] else [Propfind (month_url mon)])"
    by simp_all
next
  assume a: "download_file env url out_path tries w = (r2, w2)"
  from download_loop_trace[of env url out_path tries 1 w] a
  obtain n where n: "ngets w2 url = ngets w url + n" "n \<le> tries"
    and t: "trace w2 = trace w @ concat (map (\<lambda>k. [Get url, Sleep (3 * k\<^sup>2)]) [1..<1 + n - 1])
                 @ (if n = 0 then [] else [Get url])"
    by (auto simp: download_file_def)
  have "[1..<1 + n - 1] = [1..<n]" by (cases n) simp_all
  with n t show "ngets w url \<le> ngets w2 url" "ngets w2 url - ngets w url \<le> tries"
    "trace w2 = trace w
        @ concat (map (\<lambda>k. [Get url, Sleep (3 * k\<^sup>2)]) [1..<ngets w2 url - ngets w url])
        @ (if ngets w2 url = ngets w url then [] else [Get url])"
    by simp_all
qed

theorem backoff_delays_witness:
  "trace (snd (list_month_zips
         \<lparr>propfind_zips = \<lambda>u k. if k < 2 then ListRaise URLError
                                 else ListBody [Some ''/webdav/2024-05/cnae.zip''],
          propfind_folders = \<lambda>k. FoldersRaise URLError,
          get_file = \<lambda>u k. if k < 2 then GetRaise TimeoutError
                            else GetResp (Some ''application/zip'') True [''PK''] None\<rparr>
         ''2024-05'' 5
         \<lparr>fs = \<lambda>p. None, nlist = 0, ngets = \<lambda>u. 0, trace = []\<rparr>))
     = [Propfind (month_url ''2024-05''), Sleep 3, Propfind (month_url ''2024-05''), Sleep 12,
        Propfind (month_url ''2024-05'')]
   \<and> trace (snd (download_file
         \<lparr>propfind_zips = \<lambda>u k. if k < 2 then ListRaise URLError
                                 else ListBody [Some ''/webdav/2024-05/cnae.zip''],
          propfind_folders = \<lambda>k. FoldersRaise URLError,
          get_file = \<lambda>u k. if k < 2 then GetRaise TimeoutError
                            else GetResp (Some ''application/zip'') True [''PK''] None\<rparr>
         ''u'' ''p'' 3
         \<lparr>fs = \<lambda>p. None, nlist = 0, ngets = \<lambda>u. 0, trace = []\<rparr>))
     = [Get ''u'', Sleep 3, Get ''u'', Sleep 12, Get ''u'']"
proof -
  let ?env = "\<lparr>propfind_zips = \<lambda>u k. if k < 2 then ListRaise URLError
                                 else ListBody [Some ''/webdav/2024-05/cnae.zip''],
          propfind_folders = \<lambda>k. FoldersRaise URLError,
          get_file = \<lambda>u k. if k < 2 then GetRaise TimeoutError
                            else GetResp (Some ''application/zip'') True [''PK''] None\<rparr>"
  let ?w = "\<lparr>fs = \<lambda>p. None, nlist = 0, ngets = \<lambda>u. 0, trace = []\<rparr> :: world"
  let ?l = "list_month_zips ?env ''2024-05'' 5 ?w"
  let ?d = "download_file ?env ''u'' ''p'' 3 ?w"
  have nl: "nlist (snd ?l) = 3" by code_simp
  have nd: "ngets (snd ?d) ''u'' = 3" by code_simp
  have u: "[Suc 0..<3] = [Suc 0, 2]" by code_simp
  note t = backoff_delays[where env = ?env and mon = "''2024-05''" and retries = 5 and w = ?w
      and r = "fst ?l" and w' = "snd ?l" and url = "''u''" and out_path = "''p''" and tries = 3
      and ?r2.0 = "fst ?d" and ?w2.0 = "snd ?d"]
  have a: "trace (snd ?l) = [Propfind (month_url ''2024-05''), Sleep 3,
             Propfind (month_url ''2024-05''), Sleep 12, Propfind (month_url ''2024-05'')]"
    using t[THEN conjunct1] by (simp add: nl u)
  have b: "trace (snd ?d) = [Get ''u'', Sleep 3, Get ''u'', Sleep 12, Get ''u'']"
    using t[THEN conjunct2] by (simp add: nd u)
  from a b show ?thesis by (rule conjI)
qed


section \<open>Failed transfers\<close>

lemma transfer_attempt_wrong_type:
  "\<not> contains (lower (case ctype of None \<Rightarrow> [] | Some v \<Rightarrow> v)) ''zip'' \<Longrightarrow>
   transfer_attempt (GetResp ctype cl_ok chunks ending) out_path files
     = (Inl (RuntimeError (''Expected ZIP, got '' @ lower (case ctype of None \<Rightarrow> [] | Some v \<Rightarrow> v))),
        files)"
  by (simp add: transfer_attempt_def Let_def)

text \<open>
  A transfer that ends with an exception of a class the worker catches (a
  \<^verbatim>\<open>URLError\<close>, a timeout, a connection reset, or the \<^verbatim>\<open>RuntimeError\<close> of a content
  type without \<^verbatim>\<open>zip\<close>) leaves no file at the target path. This holds after every
  failed attempt: the handler removes the target before the loop raises (last attempt) or
  sleeps and tries again. An exception of another class is not handled.
\<close>

lemma caught_failure_leaves_no_file:
  "(download_file env url out_path tries w = (Inl e, w') \<and> caught e \<longrightarrow>
      fs w' out_path = None \<and> \<not> present (fs w') out_path)
   \<and> caught URLError \<and> caught TimeoutError \<and> caught ConnectionResetError
   \<and> (\<not> contains (lower (case ctype of None \<Rightarrow> [] | Some v \<Rightarrow> v)) ''zip'' \<longrightarrow>
        (\<exists>msg. transfer_attempt (GetResp ctype cl_ok chunks ending) out_path files
                 = (Inl (RuntimeError msg), files) \<and> caught (RuntimeError msg)))
   \<and> (a \<le> tries \<and> caught e
        \<and> transfer_attempt (get_file env url (ngets w url)) out_path (fs w) = (Inl e, files) \<longrightarrow>
        (\<exists>w2. fs w2 out_path = None
              \<and> download_loop env url out_path tries a w =
                  (if a = tries then (Inl e, w2)
                   else download_loop env url out_path tries (Suc a) (emit (Sleep (3 * a\<^sup>2)) w2))))"
proof (intro conjI impI)
  assume a: "download_file env url out_path tries w = (Inl e, w') \<and> caught e"
  with download_loop_unlinks[of env url out_path tries 1 w]
  show "fs w' out_path = None" by (simp add: download_file_def)
  then show "\<not> present (fs w') out_path" by (simp add: present_def)
next
  show "caught URLError" "caught TimeoutError" "caught ConnectionResetError" by simp_all
next
  assume "\<not> contains (lower (case ctype of None \<Rightarrow> [] | Some v \<Rightarrow> v)) ''zip''"
  from transfer_attempt_wrong_type[OF this]
  show "\<exists>msg. transfer_attempt (GetResp ctype cl_ok chunks ending) out_path files
                 = (Inl (RuntimeError msg), files) \<and> caught (RuntimeError msg)"
    by simp
next
  assume h: "a \<le> tries \<and> caught e
        \<and> transfer_attempt (get_file env url (ngets w url)) out_path (fs w) = (Inl e, files)"
  let ?w2 = "(sent_get url w)\<lparr>fs := files(out_path := None)\<rparr>"
  have "download_loop env url out_path tries a w =
          (if a = tries then (Inl e, ?w2)
           else download_loop env url out_path tries (Suc a) (emit (Sleep (3 * a\<^sup>2)) ?w2))"
  proof (cases "a = tries")
    case True
    with h show ?thesis by (simp add: download_loop_last)
  next
    case False
    with h have "a < tries" by simp
    from download_loop_retry[OF this] h False show ?thesis by simp
  qed
  moreover have "fs ?w2 out_path = None" by simp
  ultimately show "\<exists>w2. fs w2 out_path = None
              \<and> download_loop env url out_path tries a w =
                  (if a = tries then (Inl e, w2)
                   else download_loop env url out_path tries (Suc a) (emit (Sleep (3 * a\<^sup>2)) w2))"
    by blast
qed

lemma caught_failure_leaves_no_file_example:
  "fst (transfer_attempt (GetResp (Some ''application/zip'') True [''PK'', ''data'']
                            (Some ConnectionResetError)) ''p'' (\<lambda>p. None))
     = Inl ConnectionResetError
   \<and> snd (transfer_attempt (GetResp (Some ''application/zip'') True [''PK'', ''data'']
                            (Some ConnectionResetError)) ''p'' (\<lambda>p. None)) ''p''
     = Some ''PKdata''
   \<and> fst (download_file
         \<lparr>propfind_zips = \<lambda>u k. ListRaise URLError,
          propfind_folders = \<lambda>k. FoldersRaise URLError,
          get_file = \<lambda>u k. GetResp (Some ''application/zip'') True [''PK'', ''data'']
                              (Some ConnectionResetError)\<rparr>
         ''u'' ''p'' 3
         \<lparr>fs = \<lambda>p. None, nlist = 0, ngets = \<lambda>u. 0, trace = []\<rparr>) = Inl ConnectionResetError
   \<and> fs (snd (download_file
         \<lparr>propfind_zips = \<lambda>u k. ListRaise URLError,
          propfind_folders = \<lambda>k. FoldersRaise URLError,
          get_file = \<lambda>u k. GetResp (Some ''application/zip'') True [''PK'', ''data'']
                              (Some ConnectionResetError)\<rparr>
         ''u'' ''p'' 3
         \<lparr>fs = \<lambda>p. None, nlist = 0, ngets = \<lambda>u. 0, trace = []\<rparr>)) ''p'' = None"
proof -
  let ?r = "GetResp (Some ''application/zip'') True [''PK'', ''data''] (Some ConnectionResetError)"
  let ?env = "\<lparr>propfind_zips = \<lambda>u k. ListRaise URLError,
          propfind_folders = \<lambda>k. FoldersRaise URLError,
          get_file = \<lambda>u k. ?r\<rparr>"
  let ?w = "\<lparr>fs = \<lambda>p. None, nlist = 0, ngets = \<lambda>u. 0, trace = []\<rparr> :: world"
  let ?d = "download_file ?env ''u'' ''p'' 3 ?w"
  have t1: "fst (transfer_attempt ?r ''p'' (\<lambda>p. None)) = Inl ConnectionResetError" by code_simp
  have t2: "snd (transfer_attempt ?r ''p'' (\<lambda>p. None)) ''p'' = Some ''PKdata''" by code_simp
  have f: "fst ?d = Inl ConnectionResetError" by code_simp
  then have eq: "?d = (Inl ConnectionResetError, snd ?d)" by (simp add: prod_eq_iff)
  have c: "caught ConnectionResetError" by simp
  from caught_failure_leaves_no_file[where env = ?env and url = "''u''" and out_path = "''p''"
      and tries = 3 and w = ?w and e = ConnectionResetError and w' = "snd ?d",
      THEN conjunct1, THEN mp, OF conjI[OF eq c]]
  have "fs (snd ?d) ''p'' = None" by (rule conjunct1)
  with t1 t2 f show ?thesis by (intro conjI)
qed

section \<open>Month discovery sends one request\<close>

lemma list_month_folders_effect:
  "fs (snd (list_month_folders env w)) = fs w
   \<and> ngets (snd (list_month_folders env w)) = ngets w
   \<and> nlist (snd (list_month_folders env w)) = nlist w + 1
   \<and> trace (snd (list_month_folders env w))
       = trace w @ [Propfind (WEBDAV_BASE @ ''/Dados/Cadastros/CNPJ/'')]"
  by (simp add: list_month_folders_def Let_def split: folders_response.splits)

lemma get_updated_months_snd:
  "snd (get_updated_months env days now w) = snd (list_month_folders env w)"
  by (simp add: get_updated_months_def Let_def split: prod.splits sum.splits)

lemma get_updated_months_raise:
  "propfind_folders env (nlist w) = FoldersRaise e \<Longrightarrow>
   fst (get_updated_months env days now w) = Inl e"
  by (simp add: get_updated_months_def list_month_folders_def Let_def)

text \<open>
  Claim C6, as the code has it. The listing of the month finder sends exactly one request
  and never sleeps; when that request raises, the exception leaves
  \<^verbatim>\<open>get_updated_months\<close> as it is.
\<close>

theorem discovery_lists_once:
  "nlist (snd (get_updated_months env days now w)) = nlist w + 1
   \<and> trace (snd (get_updated_months env days now w))
       = trace w @ [Propfind (WEBDAV_BASE @ ''/Dados/Cadastros/CNPJ/'')]
   \<and> fs (snd (get_updated_months env days now w)) = fs w
   \<and> (propfind_folders env (nlist w) = FoldersRaise e \<longrightarrow>
        fst (get_updated_months env days now w) = Inl e)"
  using list_month_folders_effect[of env w]
  by (simp add: get_updated_months_snd get_updated_months_raise)

theorem discovery_lists_once_witness:
  "propfind_folders
     \<lparr>propfind_zips = \<lambda>u k. ListRaise URLError,
      propfind_folders = \<lambda>k. if k = 0 then FoldersRaise TimeoutError
          else FoldersBody [\<lparr>resp_href = Some (Some ''/webdav/Dados/Cadastros/CNPJ/2024-05/''),
                             resp_lastmod = Some (Some 1700000000000000)\<rparr>],
      get_file = \<lambda>u k. GetRaise URLError\<rparr>
     (nlist \<lparr>fs = \<lambda>p. None, nlist = 0, ngets = \<lambda>u. 0, trace = []\<rparr>) = FoldersRaise TimeoutError
   \<and> fst (get_updated_months
     \<lparr>propfind_zips = \<lambda>u k. ListRaise URLError,
      propfind_folders = \<lambda>k. if k = 0 then FoldersRaise TimeoutError
          else FoldersBody [\<lparr>resp_href = Some (Some ''/webdav/Dados/Cadastros/CNPJ/2024-05/''),
                             resp_lastmod = Some (Some 1700000000000000)\<rparr>],
      get_file = \<lambda>u k. GetRaise URLError\<rparr>
     15 1700000000000000
     \<lparr>fs = \<lambda>p. None, nlist = 0, ngets = \<lambda>u. 0, trace = []\<rparr>) = Inl TimeoutError"
proof -
  let ?env = "\<lparr>propfind_zips = \<lambda>u k. ListRaise URLError,
      propfind_folders = \<lambda>k. if k = 0 then FoldersRaise TimeoutError
          else FoldersBody [\<lparr>resp_href = Some (Some ''/webdav/Dados/Cadastros/CNPJ/2024-05/''),
                             resp_lastmod = Some (Some 1700000000000000)\<rparr>],
      get_file = \<lambda>u k. GetRaise URLError\<rparr>"
  let ?w = "\<lparr>fs = \<lambda>p. None, nlist = 0, ngets = \<lambda>u. 0, trace = []\<rparr> :: world"
  have h: "propfind_folders ?env (nlist ?w) = FoldersRaise TimeoutError" by simp
  from discovery_lists_once[where env = ?env and w = ?w and e = TimeoutError
      and days = 15 and now = 1700000000000000, THEN conjunct2, THEN conjunct2, THEN conjunct2,
      THEN mp, OF h] h
  show ?thesis by (intro conjI)
qed

text \<open>
  The first request times out and the second would be answered: discovery fails at once,
  after one request and without a sleep.
\<close>

theorem discovery_retry_counterexample:
  "fst (get_updated_months
     \<lparr>propfind_zips = \<lambda>u k. ListRaise URLError,
      propfind_folders = \<lambda>k. if k = 0 then FoldersRaise TimeoutError
          else FoldersBody [\<lparr>resp_href = Some (Some ''/webdav/Dados/Cadastros/CNPJ/2024-05/''),
                             resp_lastmod = Some (Some 1700000000000000)\<rparr>],
      get_file = \<lambda>u k. GetRaise URLError\<rparr>
     15 1700000000000000
     \<lparr>fs = \<lambda>p. None, nlist = 0, ngets = \<lambda>u. 0, trace = []\<rparr>) = Inl TimeoutError
   \<and> trace (snd (get_updated_months
     \<lparr>propfind_zips = \<lambda>u k. ListRaise URLError,
      propfind_folders = \<lambda>k. if k = 0 then FoldersRaise TimeoutError
          else FoldersBody [\<lparr>resp_href = Some (Some ''/webdav/Dados/Cadastros/CNPJ/2024-05/''),
                             resp_lastmod = Some (Some 1700000000000000)\<rparr>],
      get_file = \<lambda>u k. GetRaise URLError\<rparr>
     15 1700000000000000
     \<lparr>fs = \<lambda>p. None, nlist = 0, ngets = \<lambda>u. 0, trace = []\<rparr>))
     = [Propfind (WEBDAV_BASE @ ''/Dados/Cadastros/CNPJ/'')]
   \<and> fst (get_updated_months
     \<lparr>propfind_zips = \<lambda>u k. ListRaise URLError,
      propfind_folders = \<lambda>k. if k = 0 then FoldersRaise TimeoutError
          else FoldersBody [\<lparr>resp_href = Some (Some ''/webdav/Dados/Cadastros/CNPJ/2024-05/''),
                             resp_lastmod = Some (Some 1700000000000000)\<rparr>],
      get_file = \<lambda>u k. GetRaise URLError\<rparr>
     15 1700000000000000
     \<lparr>fs = \<lambda>p. None, nlist = 1, ngets = \<lambda>u. 0, trace = []\<rparr>) = Inr [''2024-05'']"
  by code_simp


section \<open>The months of an answer\<close>





section \<open>The updated months\<close>












section \<open>One round\<close>

lemma list_month_zips_frame:
  assumes "list_month_zips env mon retries w = (r, w')"
  shows "fs w' = fs w" "ngets w' = ngets w"
  using list_loop_frame[of env mon retries 1 w] assms by (simp_all add: list_month_zips_def)

lemma download_file_effect:
  assumes "download_file env url out_path 3 w = (r, w')"
  shows "nlist w' = nlist w" "\<And>q. q \<noteq> out_path \<Longrightarrow> fs w' q = fs w q"
    "\<And>u. u \<noteq> url \<Longrightarrow> ngets w' u = ngets w u" "ngets w url < ngets w' url"
proof -
  from download_loop_frame[of env url out_path 3 1 w] assms
  show "nlist w' = nlist w" "\<And>q. q \<noteq> out_path \<Longrightarrow> fs w' q = fs w q"
    "\<And>u. u \<noteq> url \<Longrightarrow> ngets w' u = ngets w u"
    by (simp_all add: download_file_def)
  from download_loop_trace[of env url out_path 3 1 w] assms
  show "ngets w url < ngets w' url" by (auto simp: download_file_def)
qed

lemma diff_names_eq:
  "diff_names self mon files names skip tasks =
     (skip @ map (out_path_of self mon) (filter (\<lambda>n. present files (out_path_of self mon n)) names),
      tasks @ map (\<lambda>n. (n, out_path_of self mon n))
                (filter (\<lambda>n. \<not> present files (out_path_of self mon n)) names))"
  by (induction names arbitrary: skip tasks) (simp_all add: Let_def)

lemma missing_names_eq:
  "missing_names self mon files names missing =
     missing @ filter (\<lambda>n. \<not> present files (out_path_of self mon n)) names"
  by (induction names arbitrary: missing) simp_all

lemma out_path_of_inj: "out_path_of self mon n = out_path_of self mon n' \<longleftrightarrow> n = n'"
  by (simp add: out_path_of_def)

lemma build_file_url_inj: "build_file_url mon n = build_file_url mon n' \<longleftrightarrow> n = n'"
  by (simp add: build_file_url_def)

lemma run_tasks_effect:
  assumes "run_tasks env self mon (map (\<lambda>n. (n, out_path_of self mon n)) ns) acc w = (fetched, w')"
  shows "nlist w' = nlist w
     \<and> (\<forall>q. q \<notin> out_path_of self mon ` set ns \<longrightarrow> fs w' q = fs w q)
     \<and> (\<forall>u. u \<notin> build_file_url mon ` set ns \<longrightarrow> ngets w' u = ngets w u)
     \<and> (\<forall>u. u \<in> build_file_url mon ` set ns \<longrightarrow> ngets w u < ngets w' u)
     \<and> (\<forall>u. ngets w u \<le> ngets w' u)
     \<and> (\<exists>xs. fetched = acc @ xs \<and> set xs \<subseteq> out_path_of self mon ` set ns)"
  using assms
proof (induction ns arbitrary: acc w)
  case Nil
  then show ?case by simp
next
  case (Cons n ns)
  obtain r w1 where d: "download_file env (build_file_url mon n) (out_path_of self mon n) 3 w = (r, w1)"
    by (cases "download_file env (build_file_url mon n) (out_path_of self mon n) 3 w")
  note e = download_file_effect[OF d]
  obtain acc1 where rest: "run_tasks env self mon (map (\<lambda>n. (n, out_path_of self mon n)) ns) acc1 w1
      = (fetched, w')" and acc1: "\<exists>ys. acc1 = acc @ ys \<and> set ys \<subseteq> {out_path_of self mon n}"
    using Cons.prems d by (cases r) auto
  note IH = Cons.IH[OF rest]
  have mono1: "ngets w u \<le> ngets w1 u" for u
    using e(3)[of u] e(4) by (cases "u = build_file_url mon n") auto
  have "nlist w' = nlist w" using IH e(1) by simp
  moreover have "\<forall>q. q \<notin> out_path_of self mon ` set (n # ns) \<longrightarrow> fs w' q = fs w q"
    using IH e(2) by auto
  moreover have "\<forall>u. u \<notin> build_file_url mon ` set (n # ns) \<longrightarrow> ngets w' u = ngets w u"
    using IH e(3) by auto
  moreover have mono: "\<forall>u. ngets w u \<le> ngets w' u"
  proof
    fix u
    from IH have "ngets w1 u \<le> ngets w' u" by blast
    with mono1[of u] show "ngets w u \<le> ngets w' u" by simp
  qed
  moreover have "\<forall>u. u \<in> build_file_url mon ` set (n # ns) \<longrightarrow> ngets w u < ngets w' u"
  proof (intro allI impI)
    fix u assume u: "u \<in> build_file_url mon ` set (n # ns)"
    show "ngets w u < ngets w' u"
    proof (cases "u = build_file_url mon n")
      case True
      from IH have "ngets w1 u \<le> ngets w' u" by blast
      with e(4) True show ?thesis by simp
    next
      case False
      with u have "u \<in> build_file_url mon ` set ns" by auto
      with IH have "ngets w1 u < ngets w' u" by blast
      with mono1[of u] show ?thesis by simp
    qed
  qed
  moreover have "\<exists>xs. fetched = acc @ xs \<and> set xs \<subseteq> out_path_of self mon ` set (n # ns)"
  proof -
    from IH obtain xs where "fetched = acc1 @ xs" "set xs \<subseteq> out_path_of self mon ` set ns" by blast
    moreover from acc1 obtain ys where "acc1 = acc @ ys" "set ys \<subseteq> {out_path_of self mon n}" by blast
    ultimately show ?thesis by (intro exI[of _ "ys @ xs"]) auto
  qed
  ultimately show ?case by blast
qed


lemma list_loop_rounds:
  "[k. Round k \<leftarrow> trace (snd (list_loop env mon retries a w))] = [k. Round k \<leftarrow> trace w]"
proof -
  let ?Q = "\<lambda>(a::nat) (w::world) (res :: (exc + string list) \<times> world).
     [k. Round k \<leftarrow> trace (snd res)] = [k. Round k \<leftarrow> trace w]"
  have "?Q a w (list_loop env mon retries a w)"
    by (rule list_loop_cases[where P = ?Q]) simp_all
  then show ?thesis .
qed

lemma download_loop_rounds:
  "[k. Round k \<leftarrow> trace (snd (download_loop env url out_path retries a w))]
     = [k. Round k \<leftarrow> trace w]"
proof -
  let ?Q = "\<lambda>(a::nat) (w::world) (res :: (exc + unit) \<times> world).
     [k. Round k \<leftarrow> trace (snd res)] = [k. Round k \<leftarrow> trace w]"
  have "?Q a w (download_loop env url out_path retries a w)"
    by (rule download_loop_cases[where P = ?Q]) simp_all
  then show ?thesis .
qed

lemma run_tasks_rounds:
  "run_tasks env self mon tasks acc w = (fetched, w') \<Longrightarrow>
   [k. Round k \<leftarrow> trace w'] = [k. Round k \<leftarrow> trace w]"
proof (induction tasks arbitrary: acc w)
  case Nil
  then show ?case by simp
next
  case (Cons t tasks)
  obtain n p where t: "t = (n, p)" by (cases t)
  obtain r w1 where d: "download_file env (build_file_url mon n) p 3 w = (r, w1)"
    by (cases "download_file env (build_file_url mon n) p 3 w")
  have r1: "[k. Round k \<leftarrow> trace w1] = [k. Round k \<leftarrow> trace w]"
    using download_loop_rounds[of env "build_file_url mon n" p 3 1 w] d
    by (simp add: download_file_def)
  from Cons.prems t d obtain acc1 where "run_tasks env self mon tasks acc1 w1 = (fetched, w')"
    by (cases r) auto
  from Cons.IH[OF this] r1 show ?case by simp
qed

lemma download_once_Inl:
  "list_month_zips env mon 5 w = (Inl e, w1) \<Longrightarrow> download_once env self mon w = (Inl e, w1)"
  by (simp add: download_once_def)

lemma download_once_nothing:
  assumes "list_month_zips env mon 5 w = (Inr names, w1)"
    and "\<forall>n \<in> set names. present (fs w) (out_path_of self mon n)"
  shows "download_once env self mon w
           = (Inr \<lparr>downloaded = [], skipped = map (out_path_of self mon) names\<rparr>, w1)"
proof -
  have f: "fs w1 = fs w" using list_month_zips_frame[OF assms(1)] by simp
  have "filter (\<lambda>n. present (fs w) (out_path_of self mon n)) names = names"
    using assms(2) by (simp add: filter_id_conv)
  moreover have "filter (\<lambda>n. \<not> present (fs w) (out_path_of self mon n)) names = []"
    using assms(2) by (simp add: filter_empty_conv)
  ultimately show ?thesis
    using assms(1) by (simp add: download_once_def diff_names_eq f)
qed

lemma download_once_effect:
  assumes "list_month_zips env mon 5 w = (Inr names, w1)"
  shows "\<exists>fetched w2.
      download_once env self mon w
        = (Inr \<lparr>downloaded = fetched,
               skipped = map (out_path_of self mon)
                           (filter (\<lambda>n. present (fs w) (out_path_of self mon n)) names)\<rparr>, w2)
      \<and> nlist w2 = nlist w1
      \<and> [k. Round k \<leftarrow> trace w2] = [k. Round k \<leftarrow> trace w]
      \<and> set fetched \<subseteq> out_path_of self mon ` {n \<in> set names. \<not> present (fs w) (out_path_of self mon n)}
      \<and> (\<forall>q. q \<notin> out_path_of self mon ` {n \<in> set names. \<not> present (fs w) (out_path_of self mon n)}
              \<longrightarrow> fs w2 q = fs w q)
      \<and> (\<forall>u. ngets w u < ngets w2 u \<longleftrightarrow>
              u \<in> build_file_url mon ` {n \<in> set names. \<not> present (fs w) (out_path_of self mon n)})
      \<and> (\<forall>u. ngets w u \<le> ngets w2 u)"
proof -
  have f: "fs w1 = fs w" "ngets w1 = ngets w" using list_month_zips_frame[OF assms] by simp_all
  have r1: "[k. Round k \<leftarrow> trace w1] = [k. Round k \<leftarrow> trace w]"
    using list_loop_rounds[of env mon 5 1 w] assms by (simp add: list_month_zips_def)
  let ?todo = "filter (\<lambda>n. \<not> present (fs w) (out_path_of self mon n)) names"
  let ?skip = "map (out_path_of self mon) (filter (\<lambda>n. present (fs w) (out_path_of self mon n)) names)"
  have s: "set ?todo = {n \<in> set names. \<not> present (fs w) (out_path_of self mon n)}" by simp
  show ?thesis
  proof (cases "?todo = []")
    case True
    then have e: "{n \<in> set names. \<not> present (fs w) (out_path_of self mon n)} = {}"
      by (simp add: filter_empty_conv)
    have "download_once env self mon w = (Inr \<lparr>downloaded = [], skipped = ?skip\<rparr>, w1)"
      using assms True by (simp add: download_once_def diff_names_eq f)
    then show ?thesis
      using f r1 unfolding e by (intro exI[of _ "[]"] exI[of _ w1]) simp
  next
    case False
    obtain fetched w2 where rt:
      "run_tasks env self mon (map (\<lambda>n. (n, out_path_of self mon n)) ?todo) [] w1 = (fetched, w2)"
      by (cases "run_tasks env self mon (map (\<lambda>n. (n, out_path_of self mon n)) ?todo) [] w1")
    have d: "download_once env self mon w = (Inr \<lparr>downloaded = fetched, skipped = ?skip\<rparr>, w2)"
      using assms False rt by (simp add: download_once_def diff_names_eq f)
    note e = run_tasks_effect[OF rt, unfolded s f]
    note r2 = run_tasks_rounds[OF rt]
    have "\<forall>u. ngets w u < ngets w2 u \<longleftrightarrow>
              u \<in> build_file_url mon ` {n \<in> set names. \<not> present (fs w) (out_path_of self mon n)}"
    proof (intro allI iffI)
      fix u assume "ngets w u < ngets w2 u"
      with e show "u \<in> build_file_url mon ` {n \<in> set names. \<not> present (fs w) (out_path_of self mon n)}"
        by (metis less_irrefl)
    next
      fix u assume "u \<in> build_file_url mon ` {n \<in> set names. \<not> present (fs w) (out_path_of self mon n)}"
      with e show "ngets w u < ngets w2 u" by blast
    qed
    with d e r1 r2 show ?thesis
      by (intro exI[of _ fetched] exI[of _ w2]) auto
  qed
qed

lemma find_missing_zips_effect:
  "find_missing_zips env self mon w = (r, w') \<Longrightarrow>
     fs w' = fs w \<and> ngets w' = ngets w \<and> [k. Round k \<leftarrow> trace w'] = [k. Round k \<leftarrow> trace w]"
  using list_loop_frame[of env mon 5 1 w] list_loop_rounds[of env mon 5 1 w]
  by (auto simp: find_missing_zips_def list_month_zips_def split: prod.splits sum.splits)

lemma find_missing_zips_Inr:
  "find_missing_zips env self mon w = (Inr missing, w') \<longleftrightarrow>
     (\<exists>expected. list_month_zips env mon 5 w = (Inr expected, w')
        \<and> missing = filter (\<lambda>n. \<not> present (fs w) (out_path_of self mon n)) expected)"
proof -
  have "fs (snd (list_month_zips env mon 5 w)) = fs w"
    using list_loop_frame[of env mon 5 1 w] by (simp add: list_month_zips_def)
  then show ?thesis
    by (auto simp: find_missing_zips_def missing_names_eq split: prod.splits sum.splits)
qed

lemma find_missing_zips_Inl:
  "find_missing_zips env self mon w = (Inl e, w') \<longleftrightarrow> list_month_zips env mon 5 w = (Inl e, w')"
  by (auto simp: find_missing_zips_def split: prod.splits sum.splits)


section \<open>The rounds of a month\<close>

lemma month_loop_out:
  "mx < k \<Longrightarrow> month_loop env self mon mx k d s w
     = (Inl (RuntimeError (''[DOWNLOADER] Failed to fully download month '' @ mon
                   @ '' after '' @ str_nat mx @ '' rounds'')), w)"
  by (subst month_loop.simps) simp

lemma month_loop_once_fail:
  "k \<le> mx \<Longrightarrow> download_once env self mon (emit (Round k) w) = (Inl e, w1) \<Longrightarrow>
   month_loop env self mon mx k d s w = (Inl e, w1)"
  by (subst month_loop.simps) simp

lemma month_loop_check_fail:
  "k \<le> mx \<Longrightarrow> download_once env self mon (emit (Round k) w) = (Inr res, w1) \<Longrightarrow>
   find_missing_zips env self mon w1 = (Inl e, w2) \<Longrightarrow>
   month_loop env self mon mx k d s w = (Inl e, w2)"
  by (subst month_loop.simps) (simp add: Let_def)

lemma month_loop_complete:
  "k \<le> mx \<Longrightarrow> download_once env self mon (emit (Round k) w) = (Inr res, w1) \<Longrightarrow>
   find_missing_zips env self mon w1 = (Inr [], w2) \<Longrightarrow>
   month_loop env self mon mx k d s w
     = (Inr \<lparr>downloaded = d @ downloaded res, skipped = skipped res\<rparr>, w2)"
  by (subst month_loop.simps) (simp add: Let_def)

lemma month_loop_again:
  "k \<le> mx \<Longrightarrow> download_once env self mon (emit (Round k) w) = (Inr res, w1) \<Longrightarrow>
   find_missing_zips env self mon w1 = (Inr missing, w2) \<Longrightarrow> missing \<noteq> [] \<Longrightarrow>
   month_loop env self mon mx k d s w
     = month_loop env self mon mx (Suc k) (d @ downloaded res) (skipped res) (emit (Sleep 10) w2)"
  by (subst month_loop.simps) (simp add: Let_def)

lemma month_loop_cases [case_names out once_fail check_fail complete again]:
  assumes "\<And>k d s w. mx < k \<Longrightarrow>
             P k d s w (Inl (RuntimeError (''[DOWNLOADER] Failed to fully download month '' @ mon
                   @ '' after '' @ str_nat mx @ '' rounds'')), w)"
    and "\<And>k d s w e w1. k \<le> mx \<Longrightarrow> download_once env self mon (emit (Round k) w) = (Inl e, w1)
           \<Longrightarrow> P k d s w (Inl e, w1)"
    and "\<And>k d s w res w1 e w2. k \<le> mx
           \<Longrightarrow> download_once env self mon (emit (Round k) w) = (Inr res, w1)
           \<Longrightarrow> find_missing_zips env self mon w1 = (Inl e, w2)
           \<Longrightarrow> P k d s w (Inl e, w2)"
    and "\<And>k d s w res w1 w2. k \<le> mx
           \<Longrightarrow> download_once env self mon (emit (Round k) w) = (Inr res, w1)
           \<Longrightarrow> find_missing_zips env self mon w1 = (Inr [], w2)
           \<Longrightarrow> P k d s w (Inr \<lparr>downloaded = d @ downloaded res, skipped = skipped res\<rparr>, w2)"
    and "\<And>k d s w res w1 missing w2 out. k \<le> mx
           \<Longrightarrow> download_once env self mon (emit (Round k) w) = (Inr res, w1)
           \<Longrightarrow> find_missing_zips env self mon w1 = (Inr missing, w2)
           \<Longrightarrow> missing \<noteq> []
           \<Longrightarrow> P (Suc k) (d @ downloaded res) (skipped res) (emit (Sleep 10) w2) out
           \<Longrightarrow> P k d s w out"
  shows "P k d s w (month_loop env self mon mx k d s w)"
proof (induction "Suc mx - k" arbitrary: k d s w)
  case 0
  then have "mx < k" by simp
  then show ?case using assms(1) by (simp add: month_loop_out)
next
  case (Suc n)
  then have le: "k \<le> mx" by simp
  obtain r1 w1 where once: "download_once env self mon (emit (Round k) w) = (r1, w1)"
    by (cases "download_once env self mon (emit (Round k) w)")
  show ?case
  proof (cases r1)
    case (Inl e)
    with once le show ?thesis using assms(2) by (simp add: month_loop_once_fail)
  next
    case (Inr res)
    note once' = once[unfolded Inr]
    obtain r2 w2 where chk: "find_missing_zips env self mon w1 = (r2, w2)"
      by (cases "find_missing_zips env self mon w1")
    show ?thesis
    proof (cases r2)
      case (Inl e)
      with once' chk le show ?thesis using assms(3) by (simp add: month_loop_check_fail)
    next
      case (Inr missing)
      note chk' = chk[unfolded Inr]
      show ?thesis
      proof (cases "missing = []")
        case True
        with once' chk' le show ?thesis using assms(4) by (simp add: month_loop_complete)
      next
        case False
        have "n = Suc mx - Suc k" using Suc.hyps(2) by simp
        from Suc.hyps(1)[OF this] assms(5)[OF le once' chk' False] show ?thesis
          by (simp add: month_loop_again[OF le once' chk' False])
      qed
    qed
  qed
qed

lemma download_once_Inr_listing:
  assumes "download_once env self mon w = (Inr res, w1)"
  shows "\<exists>names w0. list_month_zips env mon 5 w = (Inr names, w0)"
  using assms by (auto simp: download_once_def split: prod.splits sum.splits)

lemma download_once_Inl_listing:
  assumes "download_once env self mon w = (Inl e, w1)"
  shows "list_month_zips env mon 5 w = (Inl e, w1)"
  using assms by (auto simp: download_once_def split: prod.splits sum.splits if_splits)

lemma download_once_preserves:
  assumes "download_once env self mon w = (r, w1)"
  shows "(\<forall>p. present (fs w) p \<longrightarrow> fs w1 p = fs w p)
       \<and> (\<forall>n. present (fs w) (out_path_of self mon n)
              \<longrightarrow> ngets w1 (build_file_url mon n) = ngets w (build_file_url mon n))
       \<and> [k. Round k \<leftarrow> trace w1] = [k. Round k \<leftarrow> trace w]"
proof (cases r)
  case (Inl e)
  with assms have l: "list_month_zips env mon 5 w = (Inl e, w1)"
    by (simp add: download_once_Inl_listing)
  from list_month_zips_frame[OF l] list_loop_rounds[of env mon 5 1 w] l
  show ?thesis by (simp add: list_month_zips_def)
next
  case (Inr res)
  with assms download_once_Inr_listing obtain names w0 where
    l: "list_month_zips env mon 5 w = (Inr names, w0)" by blast
  let ?todo = "{n \<in> set names. \<not> present (fs w) (out_path_of self mon n)}"
  from download_once_effect[OF l, of self] assms
  have e: "[k. Round k \<leftarrow> trace w1] = [k. Round k \<leftarrow> trace w]"
    "\<forall>q. q \<notin> out_path_of self mon ` ?todo \<longrightarrow> fs w1 q = fs w q"
    "\<forall>u. ngets w u < ngets w1 u \<longleftrightarrow> u \<in> build_file_url mon ` ?todo"
    "\<forall>u. ngets w u \<le> ngets w1 u"
    by auto
  have "fs w1 p = fs w p" if "present (fs w) p" for p
  proof -
    from that have "p \<notin> out_path_of self mon ` ?todo" by auto
    with e(2) show ?thesis by blast
  qed
  moreover have "ngets w1 (build_file_url mon n) = ngets w (build_file_url mon n)"
    if "present (fs w) (out_path_of self mon n)" for n
  proof -
    from that have "build_file_url mon n \<notin> build_file_url mon ` ?todo"
      by (auto simp: build_file_url_inj)
    with e(3) have "\<not> ngets w (build_file_url mon n) < ngets w1 (build_file_url mon n)" by blast
    moreover from e(4) have "ngets w (build_file_url mon n) \<le> ngets w1 (build_file_url mon n)" ..
    ultimately show ?thesis by linarith
  qed
  ultimately show ?thesis using e(1) by blast
qed

lemma month_loop_preserves:
  "(\<forall>p. present (fs w) p \<longrightarrow> fs (snd (month_loop env self mon mx k d s w)) p = fs w p)
   \<and> (\<forall>n. present (fs w) (out_path_of self mon n)
          \<longrightarrow> ngets (snd (month_loop env self mon mx k d s w)) (build_file_url mon n)
              = ngets w (build_file_url mon n))"
proof -
  let ?Q = "\<lambda>(k::nat) (d::string list) (s::string list) (w::world)
              (res :: (exc + DownloadResult) \<times> world).
     (\<forall>p. present (fs w) p \<longrightarrow> fs (snd res) p = fs w p)
     \<and> (\<forall>n. present (fs w) (out_path_of self mon n)
          \<longrightarrow> ngets (snd res) (build_file_url mon n) = ngets w (build_file_url mon n))"
  have "?Q k d s w (month_loop env self mon mx k d s w)"
  proof (rule month_loop_cases[where P = ?Q])
    fix k :: nat and d s :: "string list" and w :: world
    show "?Q k d s w (Inl (RuntimeError (''[DOWNLOADER] Failed to fully download month '' @ mon
                   @ '' after '' @ str_nat mx @ '' rounds'')), w)" by simp
  next
    fix k :: nat and d s :: "string list" and w w1 :: world and e
    assume "download_once env self mon (emit (Round k) w) = (Inl e, w1)"
    from download_once_preserves[OF this] show "?Q k d s w (Inl e, w1)" by simp
  next
    fix k :: nat and d s :: "string list" and w w1 w2 :: world and e res
    assume "download_once env self mon (emit (Round k) w) = (Inr res, w1)"
      "find_missing_zips env self mon w1 = (Inl e, w2)"
    from download_once_preserves[OF this(1)] find_missing_zips_effect[OF this(2)]
    show "?Q k d s w (Inl e, w2)" by simp
  next
    fix k :: nat and d s :: "string list" and w w1 w2 :: world and res
    assume "download_once env self mon (emit (Round k) w) = (Inr res, w1)"
      "find_missing_zips env self mon w1 = (Inr [], w2)"
    from download_once_preserves[OF this(1)] find_missing_zips_effect[OF this(2)]
    show "?Q k d s w (Inr \<lparr>downloaded = d @ downloaded res, skipped = skipped res\<rparr>, w2)" by simp
  next
    fix k :: nat and d s :: "string list" and w w1 w2 :: world and res missing
      and out :: "(exc + DownloadResult) \<times> world"
    assume once: "download_once env self mon (emit (Round k) w) = (Inr res, w1)"
      and chk: "find_missing_zips env self mon w1 = (Inr missing, w2)"
      and ih: "?Q (Suc k) (d @ downloaded res) (skipped res) (emit (Sleep 10) w2) out"
    note a = download_once_preserves[OF once] and b = find_missing_zips_effect[OF chk]
    have f: "fs (emit (Sleep 10) w2) p = fs w p" if "present (fs w) p" for p
      using that a b by simp
    have g: "ngets (emit (Sleep 10) w2) (build_file_url mon n) = ngets w (build_file_url mon n)"
      if "present (fs w) (out_path_of self mon n)" for n
      using that a b by simp
    show "?Q k d s w out"
    proof (intro conjI allI impI)
      fix p assume p: "present (fs w) p"
      with f have "present (fs (emit (Sleep 10) w2)) p" by (simp add: present_def)
      with ih have "fs (snd out) p = fs (emit (Sleep 10) w2) p" by blast
      with f[OF p] show "fs (snd out) p = fs w p" by simp
    next
      fix n assume p: "present (fs w) (out_path_of self mon n)"
      with f have "present (fs (emit (Sleep 10) w2)) (out_path_of self mon n)"
        by (simp add: present_def)
      with ih have "ngets (snd out) (build_file_url mon n)
                      = ngets (emit (Sleep 10) w2) (build_file_url mon n)" by blast
      with g[OF p] show "ngets (snd out) (build_file_url mon n) = ngets w (build_file_url mon n)"
        by simp
    qed
  qed
  then show ?thesis .
qed

text \<open>
  The rounds of a run, as \<open>rounds_from\<close> records them: each round is a call of
  \<^verbatim>\<open>_download_once\<close> followed by a call of \<^verbatim>\<open>_find_missing_zips\<close>, from the state
  the round before left.
\<close>

lemma rounds_from_each:
  "rounds_from env self mon k w rs \<Longrightarrow> r \<in> set rs \<Longrightarrow>
     download_once env self mon (round_start r) = (Inr (round_result r), round_checked r)
     \<and> find_missing_zips env self mon (round_checked r) = (Inr (round_missing r), round_end r)"
  by (induction rs arbitrary: k w) auto


lemma list_month_zips_requests:
  assumes "list_month_zips env mon 5 w = (r, w')"
  shows "nlist w + 1 \<le> nlist w'" "nlist w' \<le> nlist w + 5"
  using list_loop_trace[of env mon 5 1 w] assms by (auto simp: list_month_zips_def)

lemma download_once_requests:
  assumes "download_once env self mon w = (Inr res, w1)"
  shows "nlist w + 1 \<le> nlist w1" "nlist w1 \<le> nlist w + 5"
proof -
  from download_once_Inr_listing[OF assms] obtain names w0 where
    l: "list_month_zips env mon 5 w = (Inr names, w0)" by blast
  from download_once_effect[OF l, of self] assms have "nlist w1 = nlist w0" by auto
  with list_month_zips_requests[OF l] show "nlist w + 1 \<le> nlist w1" "nlist w1 \<le> nlist w + 5"
    by simp_all
qed

lemma find_missing_zips_requests:
  assumes "find_missing_zips env self mon w = (Inr missing, w1)"
  shows "nlist w + 1 \<le> nlist w1" "nlist w1 \<le> nlist w + 5"
proof -
  from assms obtain expected where "list_month_zips env mon 5 w = (Inr expected, w1)"
    by (auto simp: find_missing_zips_Inr)
  from list_month_zips_requests[OF this] show "nlist w + 1 \<le> nlist w1" "nlist w1 \<le> nlist w + 5"
    by simp_all
qed

lemma rounds_from_facts:
  "rounds_from env self mon k w rs \<Longrightarrow> rs \<noteq> [] \<Longrightarrow>
     [j. Round j \<leftarrow> trace (round_end (last rs))] = [j. Round j \<leftarrow> trace w] @ [k..<k + length rs]
     \<and> nlist w + 2 * length rs \<le> nlist (round_end (last rs))
     \<and> nlist (round_end (last rs)) \<le> nlist w + 10 * length rs"
proof (induction rs arbitrary: k w)
  case Nil
  then show ?case by simp
next
  case (Cons r rs)
  from Cons.prems(1) have
    st: "round_start r = emit (Round k) w"
    and once: "download_once env self mon (emit (Round k) w) = (Inr (round_result r), round_checked r)"
    and chk: "find_missing_zips env self mon (round_checked r) = (Inr (round_missing r), round_end r)"
    and rest: "rounds_from env self mon (Suc k) (emit (Sleep 10) (round_end r)) rs"
    by auto
  note a = download_once_preserves[OF once] and b = find_missing_zips_effect[OF chk]
  note c = download_once_requests[OF once] and e = find_missing_zips_requests[OF chk]
  have tr: "[j. Round j \<leftarrow> trace (round_end r)] = [j. Round j \<leftarrow> trace w] @ [k]"
    using a b by simp
  have n1: "nlist w + 2 \<le> nlist (round_end r)" "nlist (round_end r) \<le> nlist w + 10"
    using c e by simp_all
  show ?case
  proof (cases "rs = []")
    case True
    with tr n1 show ?thesis by simp
  next
    case False
    from Cons.IH[OF rest False] have
      t2: "[j. Round j \<leftarrow> trace (round_end (last rs))]
             = [j. Round j \<leftarrow> trace (emit (Sleep 10) (round_end r))] @ [Suc k..<Suc k + length rs]"
      and n2: "nlist (emit (Sleep 10) (round_end r)) + 2 * length rs \<le> nlist (round_end (last rs))"
        "nlist (round_end (last rs)) \<le> nlist (emit (Sleep 10) (round_end r)) + 10 * length rs"
      by simp_all
    have "k < k + length (r # rs)" by simp
    then have "[k..<k + length (r # rs)] = k # [Suc k..<k + length (r # rs)]"
      by (rule upt_conv_Cons)
    then have u: "[k..<k + length (r # rs)] = k # [Suc k..<Suc k + length rs]"
      by simp
    have "[j. Round j \<leftarrow> trace (round_end (last (r # rs)))]
            = [j. Round j \<leftarrow> trace w] @ [k..<k + length (r # rs)]"
      unfolding u using t2 tr False by simp
    moreover have "nlist w + 2 * length (r # rs) \<le> nlist (round_end (last (r # rs)))"
      using n1 n2 False by simp
    moreover have "nlist (round_end (last (r # rs))) \<le> nlist w + 10 * length (r # rs)"
      using n1 n2 False by simp
    ultimately show ?thesis by blast
  qed
qed

lemma rounds_from_all_missing:
  "rounds_from env self mon k w rs \<Longrightarrow> rs \<noteq> [] \<Longrightarrow>
     round_missing (last rs) \<noteq> [] \<longleftrightarrow> (\<forall>r \<in> set rs. round_missing r \<noteq> [])"
  by (induction rs arbitrary: k w) auto

lemma round_requests:
  assumes once: "download_once env self mon w0 = (Inr res, w1)"
    and chk: "find_missing_zips env self mon w1 = (Inr missing, w2)"
  shows "\<exists>names v expected.
           list_month_zips env mon 5 w0 = (Inr names, v)
           \<and> skipped res = map (out_path_of self mon)
                             (filter (\<lambda>n. present (fs w0) (out_path_of self mon n)) names)
           \<and> set (downloaded res)
               \<subseteq> out_path_of self mon ` {n \<in> set names. \<not> present (fs w0) (out_path_of self mon n)}
           \<and> {u. ngets w0 u < ngets w1 u}
               = build_file_url mon ` {n \<in> set names. \<not> present (fs w0) (out_path_of self mon n)}
           \<and> list_month_zips env mon 5 w1 = (Inr expected, w2)
           \<and> missing = filter (\<lambda>n. \<not> present (fs w1) (out_path_of self mon n)) expected
           \<and> nlist w0 < nlist w1 \<and> nlist w1 < nlist w2 \<and> ngets w2 = ngets w1 \<and> fs w2 = fs w1"
proof -
  from download_once_Inr_listing[OF once] obtain names v where
    l: "list_month_zips env mon 5 w0 = (Inr names, v)" by blast
  from download_once_effect[OF l, of self] once
  have s: "skipped res = map (out_path_of self mon)
                         (filter (\<lambda>n. present (fs w0) (out_path_of self mon n)) names)"
    and d: "set (downloaded res)
              \<subseteq> out_path_of self mon ` {n \<in> set names. \<not> present (fs w0) (out_path_of self mon n)}"
    and g: "\<forall>u. ngets w0 u < ngets w1 u \<longleftrightarrow>
              u \<in> build_file_url mon ` {n \<in> set names. \<not> present (fs w0) (out_path_of self mon n)}"
    by auto
  from g have g': "{u. ngets w0 u < ngets w1 u}
               = build_file_url mon ` {n \<in> set names. \<not> present (fs w0) (out_path_of self mon n)}"
    by blast
  from chk obtain expected where
    l2: "list_month_zips env mon 5 w1 = (Inr expected, w2)"
    and m: "missing = filter (\<lambda>n. \<not> present (fs w1) (out_path_of self mon n)) expected"
    by (auto simp: find_missing_zips_Inr)
  note q1 = download_once_requests(1)[OF once] and q2 = find_missing_zips_requests(1)[OF chk]
  note f = find_missing_zips_effect[OF chk]
  have "nlist w0 < nlist w1" "nlist w1 < nlist w2" "ngets w2 = ngets w1" "fs w2 = fs w1"
    using q1 q2 f by simp_all
  with l s d g' l2 m show ?thesis by blast
qed


lemma rounds_from_requests:
  assumes "rounds_from env self mon k w rs" and "r \<in> set rs"
  shows "\<exists>listed v expected.
           list_month_zips env mon 5 (round_start r) = (Inr listed, v)
           \<and> skipped (round_result r) = map (out_path_of self mon)
                 (filter (\<lambda>n. present (fs (round_start r)) (out_path_of self mon n)) listed)
           \<and> set (downloaded (round_result r))
               \<subseteq> out_path_of self mon
                    ` {n \<in> set listed. \<not> present (fs (round_start r)) (out_path_of self mon n)}
           \<and> {u. ngets (round_start r) u < ngets (round_checked r) u}
               = build_file_url mon
                    ` {n \<in> set listed. \<not> present (fs (round_start r)) (out_path_of self mon n)}
           \<and> list_month_zips env mon 5 (round_checked r) = (Inr expected, round_end r)
           \<and> round_missing r
               = filter (\<lambda>n. \<not> present (fs (round_checked r)) (out_path_of self mon n)) expected
           \<and> nlist (round_start r) < nlist (round_checked r)
           \<and> nlist (round_checked r) < nlist (round_end r)
           \<and> ngets (round_end r) = ngets (round_checked r)
           \<and> fs (round_end r) = fs (round_checked r)"
proof -
  from rounds_from_each[OF assms] have
    once: "download_once env self mon (round_start r) = (Inr (round_result r), round_checked r)"
    and chk: "find_missing_zips env self mon (round_checked r) = (Inr (round_missing r), round_end r)"
    by simp_all
  from round_requests[OF once chk] show ?thesis .
qed

section \<open>Files already present\<close>

lemma str_nat_5: "str_nat 5 = ''5''"
  by code_simp

lemma download_month_idle:
  assumes l1: "list_month_zips env mon 5 (emit (Round 1) w) = (Inr names, w1)"
    and p1: "\<forall>n \<in> set names. present (fs w) (out_path_of self mon n)"
    and l2: "list_month_zips env mon 5 w1 = (Inr names2, w2)"
    and p2: "\<forall>n \<in> set names2. present (fs w) (out_path_of self mon n)"
  shows "download_month env self mon w
           = (Inr \<lparr>downloaded = [], skipped = map (out_path_of self mon) names\<rparr>, w2)
         \<and> ngets w2 = ngets w \<and> fs w2 = fs w"
proof -
  note f1 = list_month_zips_frame[OF l1] and f2 = list_month_zips_frame[OF l2]
  have once: "download_once env self mon (emit (Round 1) w)
           = (Inr \<lparr>downloaded = [], skipped = map (out_path_of self mon) names\<rparr>, w1)"
    using p1 by (intro download_once_nothing[OF l1]) simp
  have "filter (\<lambda>n. \<not> present (fs w1) (out_path_of self mon n)) names2 = []"
    using p2 f1 by (simp add: filter_empty_conv)
  with l2 have chk: "find_missing_zips env self mon w1 = (Inr [], w2)"
    by (simp add: find_missing_zips_Inr)
  from month_loop_complete[OF _ once chk, of 5 "[]" "[]"] f1 f2
  show ?thesis by (simp add: download_month_def)
qed

text \<open>
  Claim C1. In a round (from any state), the files skipped are the listed names whose
  local file exists with nonzero size, in the order of the listing; the URLs that receive
  a GET are exactly those of the other listed names; and no file present before the round
  is changed or removed. Over the whole of \<^verbatim>\<open>download_month\<close>, a file present at the
  start keeps its contents and its URL receives no GET. When every listed file is present,
  \<^verbatim>\<open>download_month\<close> sends no GET, leaves the files alone and returns an empty
  downloaded list and all listed files as skipped.
\<close>

theorem present_files_are_skipped:
  "(list_month_zips env mon 5 w = (Inr names, w1) \<longrightarrow>
      (\<exists>fetched w2.
         download_once env self mon w
           = (Inr \<lparr>downloaded = fetched,
                  skipped = map (out_path_of self mon)
                              (filter (\<lambda>n. present (fs w) (out_path_of self mon n)) names)\<rparr>, w2)
         \<and> {u. ngets w u < ngets w2 u}
             = build_file_url mon ` {n \<in> set names. \<not> present (fs w) (out_path_of self mon n)}
         \<and> (\<forall>u. ngets w u \<le> ngets w2 u)
         \<and> (\<forall>p. present (fs w) p \<longrightarrow> fs w2 p = fs w p)))
   \<and> (download_month env self mon w = (r, w') \<longrightarrow>
        (\<forall>p. present (fs w) p \<longrightarrow> fs w' p = fs w p)
        \<and> (\<forall>n. present (fs w) (out_path_of self mon n)
               \<longrightarrow> ngets w' (build_file_url mon n) = ngets w (build_file_url mon n)))
   \<and> (list_month_zips env mon 5 (emit (Round 1) w) = (Inr names1, v1)
        \<and> (\<forall>n \<in> set names1. present (fs w) (out_path_of self mon n))
        \<and> list_month_zips env mon 5 v1 = (Inr names2, v2)
        \<and> (\<forall>n \<in> set names2. present (fs w) (out_path_of self mon n))
        \<longrightarrow> download_month env self mon w
              = (Inr \<lparr>downloaded = [], skipped = map (out_path_of self mon) names1\<rparr>, v2)
            \<and> ngets v2 = ngets w \<and> fs v2 = fs w)"
proof (intro conjI impI)
  assume l: "list_month_zips env mon 5 w = (Inr names, w1)"
  let ?todo = "{n \<in> set names. \<not> present (fs w) (out_path_of self mon n)}"
  from download_once_effect[OF l, of self] obtain fetched w2 where
    d: "download_once env self mon w
           = (Inr \<lparr>downloaded = fetched,
                  skipped = map (out_path_of self mon)
                              (filter (\<lambda>n. present (fs w) (out_path_of self mon n)) names)\<rparr>, w2)"
    and g: "\<forall>u. ngets w u < ngets w2 u \<longleftrightarrow> u \<in> build_file_url mon ` ?todo"
    and m: "\<forall>u. ngets w u \<le> ngets w2 u"
    by blast
  from g have "{u. ngets w u < ngets w2 u} = build_file_url mon ` ?todo" by blast
  moreover from download_once_preserves[OF d]
  have "\<forall>p. present (fs w) p \<longrightarrow> fs w2 p = fs w p" by blast
  ultimately show "\<exists>fetched w2.
         download_once env self mon w
           = (Inr \<lparr>downloaded = fetched,
                  skipped = map (out_path_of self mon)
                              (filter (\<lambda>n. present (fs w) (out_path_of self mon n)) names)\<rparr>, w2)
         \<and> {u. ngets w u < ngets w2 u}
             = build_file_url mon ` {n \<in> set names. \<not> present (fs w) (out_path_of self mon n)}
         \<and> (\<forall>u. ngets w u \<le> ngets w2 u)
         \<and> (\<forall>p. present (fs w) p \<longrightarrow> fs w2 p = fs w p)"
    using d m by blast
next
  assume "download_month env self mon w = (r, w')"
  with month_loop_preserves[of w env self mon 5 1 "[]" "[]"]
  show "\<forall>p. present (fs w) p \<longrightarrow> fs w' p = fs w p"
    "\<forall>n. present (fs w) (out_path_of self mon n)
               \<longrightarrow> ngets w' (build_file_url mon n) = ngets w (build_file_url mon n)"
    by (simp_all add: download_month_def)
next
  assume a: "list_month_zips env mon 5 (emit (Round 1) w) = (Inr names1, v1)
        \<and> (\<forall>n \<in> set names1. present (fs w) (out_path_of self mon n))
        \<and> list_month_zips env mon 5 v1 = (Inr names2, v2)
        \<and> (\<forall>n \<in> set names2. present (fs w) (out_path_of self mon n))"
  then have "download_month env self mon w
           = (Inr \<lparr>downloaded = [], skipped = map (out_path_of self mon) names1\<rparr>, v2)
         \<and> ngets v2 = ngets w \<and> fs v2 = fs w"
    by (intro download_month_idle) blast+
  then show "download_month env self mon w
              = (Inr \<lparr>downloaded = [], skipped = map (out_path_of self mon) names1\<rparr>, v2)"
    "ngets v2 = ngets w" "fs v2 = fs w" by blast+
qed


section \<open>A file that stays missing\<close>

lemma transfer_attempt_raise: "transfer_attempt (GetRaise e) out_path files = (Inl e, files)"
  by (simp add: transfer_attempt_def)

lemma download_loop_all_fail:
  assumes fail: "\<forall>k. \<exists>e. get_file env url k = GetRaise e \<and> caught e"
  shows "a \<le> retries \<longrightarrow>
         (\<exists>e. fst (download_loop env url out_path retries a w) = Inl e \<and> caught e)"
proof -
  let ?Q = "\<lambda>(a::nat) (w::world) (res :: (exc + unit) \<times> world).
     a \<le> retries \<longrightarrow> (\<exists>e. fst res = Inl e \<and> caught e)"
  have "?Q a w (download_loop env url out_path retries a w)"
  proof (rule download_loop_cases[where P = ?Q])
    fix a :: nat and w :: world assume "retries < a"
    then show "?Q a w (Inr (), w)" by simp
  next
    fix a :: nat and w :: world and u files
    assume "transfer_attempt (get_file env url (ngets w url)) out_path (fs w) = (Inr u, files)"
    moreover from fail obtain e where "get_file env url (ngets w url) = GetRaise e" by blast
    ultimately show "?Q a w (Inr (), (sent_get url w)\<lparr>fs := files\<rparr>)"
      by (simp add: transfer_attempt_raise)
  next
    fix a :: nat and w :: world and e files
    assume "transfer_attempt (get_file env url (ngets w url)) out_path (fs w) = (Inl e, files)"
      "\<not> caught e"
    moreover from fail obtain e' where "get_file env url (ngets w url) = GetRaise e'" "caught e'"
      by blast
    ultimately show "?Q a w (Inl e, (sent_get url w)\<lparr>fs := files\<rparr>)"
      by (simp add: transfer_attempt_raise)
  next
    fix a :: nat and w :: world and e files
    assume "caught e"
    then show "?Q a w (Inl e, (sent_get url w)\<lparr>fs := files(out_path := None)\<rparr>)" by auto
  next
    fix a :: nat and w :: world and e files and res :: "(exc + unit) \<times> world"
    assume "a < retries"
      "?Q (Suc a) (emit (Sleep (3 * a\<^sup>2)) ((sent_get url w)\<lparr>fs := files(out_path := None)\<rparr>)) res"
    then show "?Q a w res" by simp
  qed
  then show ?thesis .
qed

lemma download_file_all_fail:
  assumes "\<forall>k. \<exists>e. get_file env url k = GetRaise e \<and> caught e"
    and "download_file env url out_path 3 w = (r, w')"
  shows "fs w' out_path = None"
proof -
  from download_loop_all_fail[OF assms(1), of 1 3 out_path w] assms(2)
  obtain e where "r = Inl e" "caught e" by (auto simp: download_file_def)
  with download_loop_unlinks[of env url out_path 3 1 w] assms(2)
  show ?thesis by (simp add: download_file_def)
qed

lemma run_tasks_keeps_absent:
  assumes fail: "\<forall>k. \<exists>e. get_file env (build_file_url mon n) k = GetRaise e \<and> caught e"
  shows "run_tasks env self mon (map (\<lambda>m. (m, out_path_of self mon m)) ns) acc w = (fetched, w')
     \<Longrightarrow> \<not> present (fs w) (out_path_of self mon n)
     \<Longrightarrow> \<not> present (fs w') (out_path_of self mon n)"
proof (induction ns arbitrary: acc w)
  case Nil
  then show ?case by simp
next
  case (Cons m ns)
  obtain r w1 where d: "download_file env (build_file_url mon m) (out_path_of self mon m) 3 w = (r, w1)"
    by (cases "download_file env (build_file_url mon m) (out_path_of self mon m) 3 w")
  have "\<not> present (fs w1) (out_path_of self mon n)"
  proof (cases "m = n")
    case True
    with download_file_all_fail[OF fail] d show ?thesis by (simp add: present_def)
  next
    case False
    then have "out_path_of self mon n \<noteq> out_path_of self mon m" by (simp add: out_path_of_inj)
    from download_file_effect(2)[OF d this] Cons.prems(2) show ?thesis by (simp add: present_def)
  qed
  moreover from Cons.prems(1) d obtain acc1 where
    "run_tasks env self mon (map (\<lambda>m. (m, out_path_of self mon m)) ns) acc1 w1 = (fetched, w')"
    by (cases r) auto
  ultimately show ?case using Cons.IH by blast
qed

lemma download_once_keeps_absent:
  assumes fail: "\<forall>k. \<exists>e. get_file env (build_file_url mon n) k = GetRaise e \<and> caught e"
    and d: "download_once env self mon w = (r, w1)"
    and absent: "\<not> present (fs w) (out_path_of self mon n)"
  shows "\<not> present (fs w1) (out_path_of self mon n)"
proof (cases r)
  case (Inl e)
  with d have l: "list_month_zips env mon 5 w = (Inl e, w1)" by (simp add: download_once_Inl_listing)
  from list_month_zips_frame[OF l] absent show ?thesis by simp
next
  case (Inr res)
  with d download_once_Inr_listing obtain names w0 where
    l: "list_month_zips env mon 5 w = (Inr names, w0)" by blast
  have f: "fs w0 = fs w" using list_month_zips_frame[OF l] by simp
  let ?todo = "filter (\<lambda>m. \<not> present (fs w) (out_path_of self mon m)) names"
  show ?thesis
  proof (cases "?todo = []")
    case True
    with d l have "w1 = w0" by (simp add: download_once_def diff_names_eq f)
    with f absent show ?thesis by simp
  next
    case False
    obtain fetched w2 where rt:
      "run_tasks env self mon (map (\<lambda>m. (m, out_path_of self mon m)) ?todo) [] w0 = (fetched, w2)"
      by (cases "run_tasks env self mon (map (\<lambda>m. (m, out_path_of self mon m)) ?todo) [] w0")
    with d l False have "w1 = w2" by (simp add: download_once_def diff_names_eq f)
    with run_tasks_keeps_absent[OF fail rt] f absent show ?thesis by simp
  qed
qed

lemma stable_listing:
  assumes "\<forall>k. propfind_zips env (month_url mon) k = ListBody hrefs"
    and "collect_zips hrefs [] = Inr names" and "names \<noteq> []"
  shows "list_month_zips env mon 5 w = (Inr names, sent_propfind (month_url mon) w)"
proof -
  have "list_attempt (propfind_zips env (month_url mon) (nlist w)) = Inr names"
    using assms by (simp add: list_attempt_def)
  from list_loop_ok[OF _ this, of 1 5] show ?thesis by (simp add: list_month_zips_def)
qed

lemma listing_error_is_not_incomplete:
  "RuntimeError (''Failed to list ZIPs for '' @ mon)
     \<noteq> RuntimeError (''[DOWNLOADER] Failed to fully download month '' @ mon'
                       @ '' after '' @ str_nat mx @ '' rounds'')"
  by simp

lemma download_once_error:
  assumes "download_once env self mon w = (Inl e, w1)"
  shows "e = RuntimeError (''Failed to list ZIPs for '' @ mon)"
proof -
  from download_once_Inl_listing[OF assms] have "list_loop env mon 5 1 w = (Inl e, w1)"
    unfolding list_month_zips_def .
  from list_loop_Inl[OF this] show ?thesis by (rule conjunct1)
qed

lemma find_missing_zips_error:
  assumes "find_missing_zips env self mon w = (Inl e, w1)"
  shows "e = RuntimeError (''Failed to list ZIPs for '' @ mon)"
proof -
  from assms have "list_loop env mon 5 1 w = (Inl e, w1)"
    unfolding find_missing_zips_Inl list_month_zips_def .
  from list_loop_Inl[OF this] show ?thesis by (rule conjunct1)
qed

lemma month_loop_errors:
  "\<forall>e. fst (month_loop env self mon mx k d s w) = Inl e \<longrightarrow>
     e = RuntimeError (''[DOWNLOADER] Failed to fully download month '' @ mon
                       @ '' after '' @ str_nat mx @ '' rounds'')
     \<or> e = RuntimeError (''Failed to list ZIPs for '' @ mon)"
proof -
  let ?Q = "\<lambda>(k::nat) (d::string list) (s::string list) (w::world)
              (res :: (exc + DownloadResult) \<times> world).
     \<forall>e. fst res = Inl e \<longrightarrow>
       e = RuntimeError (''[DOWNLOADER] Failed to fully download month '' @ mon
                       @ '' after '' @ str_nat mx @ '' rounds'')
       \<or> e = RuntimeError (''Failed to list ZIPs for '' @ mon)"
  have "?Q k d s w (month_loop env self mon mx k d s w)"
  proof (rule month_loop_cases[where P = ?Q])
    fix k :: nat and d s :: "string list" and w :: world
    show "?Q k d s w (Inl (RuntimeError (''[DOWNLOADER] Failed to fully download month '' @ mon
                   @ '' after '' @ str_nat mx @ '' rounds'')), w)" by simp
  next
    fix k :: nat and d s :: "string list" and w w1 :: world and e
    assume "download_once env self mon (emit (Round k) w) = (Inl e, w1)"
    from download_once_error[OF this] show "?Q k d s w (Inl e, w1)" by simp
  next
    fix k :: nat and d s :: "string list" and w w1 w2 :: world and e and res :: DownloadResult
    assume "find_missing_zips env self mon w1 = (Inl e, w2)"
    from find_missing_zips_error[OF this] show "?Q k d s w (Inl e, w2)" by simp
  next
    fix k :: nat and d s :: "string list" and w w2 :: world and res :: DownloadResult
    show "?Q k d s w (Inr \<lparr>downloaded = d @ downloaded res, skipped = skipped res\<rparr>, w2)" by simp
  next
    fix k :: nat and d s :: "string list" and w w2 :: world and res :: DownloadResult
      and out :: "(exc + DownloadResult) \<times> world"
    assume "?Q (Suc k) (d @ downloaded res) (skipped res) (emit (Sleep 10) w2) out"
    then show "?Q k d s w out" .
  qed
  then show ?thesis .
qed

lemma month_loop_keeps_absent:
  assumes fail: "\<forall>j. \<exists>e. get_file env (build_file_url mon n) j = GetRaise e \<and> caught e"
  shows "\<not> present (fs w) (out_path_of self mon n) \<longrightarrow>
         \<not> present (fs (snd (month_loop env self mon mx k d s w))) (out_path_of self mon n)"
proof -
  let ?Q = "\<lambda>(k::nat) (d::string list) (s::string list) (w::world)
              (res :: (exc + DownloadResult) \<times> world).
     \<not> present (fs w) (out_path_of self mon n)
       \<longrightarrow> \<not> present (fs (snd res)) (out_path_of self mon n)"
  have "?Q k d s w (month_loop env self mon mx k d s w)"
  proof (rule month_loop_cases[where P = ?Q])
    fix k :: nat and d s :: "string list" and w :: world
    show "?Q k d s w (Inl (RuntimeError (''[DOWNLOADER] Failed to fully download month '' @ mon
                   @ '' after '' @ str_nat mx @ '' rounds'')), w)" by simp
  next
    fix k :: nat and d s :: "string list" and w w1 :: world and e
    assume "download_once env self mon (emit (Round k) w) = (Inl e, w1)"
    from download_once_keeps_absent[OF fail this] show "?Q k d s w (Inl e, w1)" by simp
  next
    fix k :: nat and d s :: "string list" and w w1 w2 :: world and e and res :: DownloadResult
    assume "download_once env self mon (emit (Round k) w) = (Inr res, w1)"
      "find_missing_zips env self mon w1 = (Inl e, w2)"
    from download_once_keeps_absent[OF fail this(1)] find_missing_zips_effect[OF this(2)]
    show "?Q k d s w (Inl e, w2)" by simp
  next
    fix k :: nat and d s :: "string list" and w w1 w2 :: world and res :: DownloadResult
    assume "download_once env self mon (emit (Round k) w) = (Inr res, w1)"
      "find_missing_zips env self mon w1 = (Inr [], w2)"
    from download_once_keeps_absent[OF fail this(1)] find_missing_zips_effect[OF this(2)]
    show "?Q k d s w (Inr \<lparr>downloaded = d @ downloaded res, skipped = skipped res\<rparr>, w2)" by simp
  next
    fix k :: nat and d s :: "string list" and w w1 w2 :: world and res :: DownloadResult
      and missing and out :: "(exc + DownloadResult) \<times> world"
    assume once: "download_once env self mon (emit (Round k) w) = (Inr res, w1)"
      and chk: "find_missing_zips env self mon w1 = (Inr missing, w2)"
      and ih: "?Q (Suc k) (d @ downloaded res) (skipped res) (emit (Sleep 10) w2) out"
    from download_once_keeps_absent[OF fail once] find_missing_zips_effect[OF chk] ih
    show "?Q k d s w out" by simp
  qed
  then show ?thesis .
qed

lemma month_loop_incomplete_iff:
  "month_loop env self mon mx k d s w
     = (Inl (RuntimeError (''[DOWNLOADER] Failed to fully download month '' @ mon
                             @ '' after '' @ str_nat mx @ '' rounds'')), w') \<longleftrightarrow>
     (if mx < k then w' = w
      else \<exists>rs. length rs = Suc mx - k \<and> rounds_from env self mon k w rs
             \<and> round_missing (last rs) \<noteq> [] \<and> w' = emit (Sleep 10) (round_end (last rs)))"
proof -
  let ?msg = "RuntimeError (''[DOWNLOADER] Failed to fully download month '' @ mon
                             @ '' after '' @ str_nat mx @ '' rounds'')"
  let ?R = "\<lambda>(k::nat) (w::world) (rs :: round_log list).
     length rs = Suc mx - k \<and> rounds_from env self mon k w rs
       \<and> round_missing (last rs) \<noteq> [] \<and> w' = emit (Sleep 10) (round_end (last rs))"
  let ?Q = "\<lambda>(k::nat) (d::string list) (s::string list) (w::world)
              (out :: (exc + DownloadResult) \<times> world).
     out = (Inl ?msg, w') \<longleftrightarrow> (if mx < k then w' = w else \<exists>rs. ?R k w rs)"
  have "?Q k d s w (month_loop env self mon mx k d s w)"
  proof (rule month_loop_cases[where P = ?Q])
    fix k :: nat and d s :: "string list" and w :: world
    assume "mx < k"
    then show "?Q k d s w (Inl ?msg, w)" by auto
  next
    fix k :: nat and d s :: "string list" and w w1 :: world and e
    assume le: "k \<le> mx" and once: "download_once env self mon (emit (Round k) w) = (Inl e, w1)"
    have "\<not> ?R k w rs" for rs
    proof (cases rs)
      case Nil
      with le show ?thesis by simp
    next
      case (Cons r rs')
      with once show ?thesis by auto
    qed
    moreover have "e \<noteq> ?msg"
      using download_once_error[OF once] listing_error_is_not_incomplete[of mon mon mx]
      by (simp del: append.simps)
    ultimately show "?Q k d s w (Inl e, w1)" using le by simp
  next
    fix k :: nat and d s :: "string list" and w w1 w2 :: world and e and r0 :: DownloadResult
    assume le: "k \<le> mx"
      and once: "download_once env self mon (emit (Round k) w) = (Inr r0, w1)"
      and chk: "find_missing_zips env self mon w1 = (Inl e, w2)"
    have "\<not> ?R k w rs" for rs
    proof (cases rs)
      case Nil
      with le show ?thesis by simp
    next
      case (Cons r rs')
      with once chk show ?thesis by auto
    qed
    moreover have "e \<noteq> ?msg"
      using find_missing_zips_error[OF chk] listing_error_is_not_incomplete[of mon mon mx]
      by (simp del: append.simps)
    ultimately show "?Q k d s w (Inl e, w2)" using le by simp
  next
    fix k :: nat and d s :: "string list" and w w1 w2 :: world and r0 :: DownloadResult
    assume le: "k \<le> mx"
      and once: "download_once env self mon (emit (Round k) w) = (Inr r0, w1)"
      and chk: "find_missing_zips env self mon w1 = (Inr [], w2)"
    have "\<not> ?R k w rs" for rs
    proof (cases rs)
      case Nil
      with le show ?thesis by simp
    next
      case (Cons r rs')
      show ?thesis
      proof
        assume R: "?R k w rs"
        with Cons once chk have r: "round_missing r = []" by auto
        with R Cons have "rs' = []" by auto
        with R Cons r show False by simp
      qed
    qed
    then show "?Q k d s w (Inr \<lparr>downloaded = d @ downloaded r0, skipped = skipped r0\<rparr>, w2)"
      using le by simp
  next
    fix k :: nat and d s :: "string list" and w w1 w2 :: world and r0 :: DownloadResult
      and missing and out :: "(exc + DownloadResult) \<times> world"
    assume le: "k \<le> mx"
      and once: "download_once env self mon (emit (Round k) w) = (Inr r0, w1)"
      and chk: "find_missing_zips env self mon w1 = (Inr missing, w2)"
      and ne: "missing \<noteq> []"
      and ih: "?Q (Suc k) (d @ downloaded r0) (skipped r0) (emit (Sleep 10) w2) out"
    let ?r = "\<lparr>round_start = emit (Round k) w, round_result = r0, round_checked = w1,
               round_missing = missing, round_end = w2\<rparr>"
    have "out = (Inl ?msg, w') \<longleftrightarrow> (\<exists>rs. ?R k w rs)"
    proof
      assume o: "out = (Inl ?msg, w')"
      show "\<exists>rs. ?R k w rs"
      proof (cases "mx < Suc k")
        case True
        with o ih have "w' = emit (Sleep 10) w2" by simp
        with True le once chk ne have "?R k w [?r]" by auto
        then show ?thesis ..
      next
        case False
        with o ih obtain rs' where R': "?R (Suc k) (emit (Sleep 10) w2) rs'" by auto
        with False have "rs' \<noteq> []" by auto
        with R' le once chk ne have "?R k w (?r # rs')" by auto
        then show ?thesis ..
      qed
    next
      assume "\<exists>rs. ?R k w rs"
      then obtain rs where R: "?R k w rs" ..
      with le obtain r rs' where rs: "rs = r # rs'" by (cases rs) auto
      from R rs once chk have r: "round_result r = r0" "round_checked r = w1"
        "round_missing r = missing" "round_end r = w2" by auto
      show "out = (Inl ?msg, w')"
      proof (cases "mx < Suc k")
        case True
        with le have "Suc mx - k = Suc 0" by arith
        with R rs have "rs' = []" by simp
        with R rs r have "w' = emit (Sleep 10) w2" by simp
        with True ih show ?thesis by simp
      next
        case False
        with R rs have ne': "rs' \<noteq> []" by auto
        with R rs r have "?R (Suc k) (emit (Sleep 10) w2) rs'" by auto
        with False ih show ?thesis by auto
      qed
    qed
    with le show "?Q k d s w out" by simp
  qed
  then show ?thesis .
qed

lemma download_loop_all_fail_count:
  assumes fail: "\<forall>k. \<exists>e. get_file env url k = GetRaise e \<and> caught e"
  shows "ngets (snd (download_loop env url out_path retries a w)) url
           = ngets w url + (Suc retries - a)"
proof -
  let ?Q = "\<lambda>(a::nat) (w::world) (res :: (exc + unit) \<times> world).
     ngets (snd res) url = ngets w url + (Suc retries - a)"
  have "?Q a w (download_loop env url out_path retries a w)"
  proof (rule download_loop_cases[where P = ?Q])
    fix a :: nat and w :: world assume "retries < a"
    then show "?Q a w (Inr (), w)" by simp
  next
    fix a :: nat and w :: world and u files
    assume "transfer_attempt (get_file env url (ngets w url)) out_path (fs w) = (Inr u, files)"
    moreover from fail obtain e where "get_file env url (ngets w url) = GetRaise e" by blast
    ultimately show "?Q a w (Inr (), (sent_get url w)\<lparr>fs := files\<rparr>)"
      by (simp add: transfer_attempt_raise)
  next
    fix a :: nat and w :: world and e files
    assume "transfer_attempt (get_file env url (ngets w url)) out_path (fs w) = (Inl e, files)"
      "\<not> caught e"
    moreover from fail obtain e' where "get_file env url (ngets w url) = GetRaise e'" "caught e'"
      by blast
    ultimately show "?Q a w (Inl e, (sent_get url w)\<lparr>fs := files\<rparr>)"
      by (simp add: transfer_attempt_raise)
  next
    fix a :: nat and w :: world and e files
    assume "a = retries"
    then show "?Q a w (Inl e, (sent_get url w)\<lparr>fs := files(out_path := None)\<rparr>)" by simp
  next
    fix a :: nat and w :: world and e files and res :: "(exc + unit) \<times> world"
    assume "a < retries"
      "?Q (Suc a) (emit (Sleep (3 * a\<^sup>2)) ((sent_get url w)\<lparr>fs := files(out_path := None)\<rparr>)) res"
    then show "?Q a w res" by simp
  qed
  then show ?thesis .
qed

lemma count_list_filter:
  "count_list (filter P xs) x = (if P x then count_list xs x else 0)"
  by (induction xs) auto

lemma run_tasks_all_fail_count:
  assumes fail: "\<forall>k. \<exists>e. get_file env (build_file_url mon n) k = GetRaise e \<and> caught e"
  shows "run_tasks env self mon (map (\<lambda>m. (m, out_path_of self mon m)) ns) acc w = (fetched, w')
     \<Longrightarrow> ngets w' (build_file_url mon n) = ngets w (build_file_url mon n) + 3 * count_list ns n"
proof (induction ns arbitrary: acc w)
  case Nil
  then show ?case by simp
next
  case (Cons m ns)
  obtain r w1 where d: "download_file env (build_file_url mon m) (out_path_of self mon m) 3 w = (r, w1)"
    by (cases "download_file env (build_file_url mon m) (out_path_of self mon m) 3 w")
  have g: "ngets w1 (build_file_url mon n)
             = ngets w (build_file_url mon n) + (if m = n then 3 else 0)"
  proof (cases "m = n")
    case True
    from download_loop_all_fail_count[OF fail, of "out_path_of self mon n" 3 1 w] d True
    show ?thesis by (simp add: download_file_def)
  next
    case False
    then have "build_file_url mon n \<noteq> build_file_url mon m" by (simp add: build_file_url_inj)
    from download_file_effect(3)[OF d this] False show ?thesis by simp
  qed
  from Cons.prems d obtain acc1 where
    "run_tasks env self mon (map (\<lambda>m. (m, out_path_of self mon m)) ns) acc1 w1 = (fetched, w')"
    by (cases r) auto
  from Cons.IH[OF this] g show ?case by simp
qed

lemma failing_file_round:
  assumes stable: "\<forall>k. propfind_zips env (month_url mon) k = ListBody hrefs"
    and names: "collect_zips hrefs [] = Inr names" and n: "n \<in> set names"
    and fail: "\<forall>k. \<exists>e. get_file env (build_file_url mon n) k = GetRaise e \<and> caught e"
    and absent: "\<not> present (fs w) (out_path_of self mon n)"
  shows "\<exists>res w1 missing w2.
           download_once env self mon w = (Inr res, w1)
           \<and> find_missing_zips env self mon w1 = (Inr missing, w2)
           \<and> missing \<noteq> []
           \<and> \<not> present (fs w2) (out_path_of self mon n)
           \<and> nlist w2 = nlist w + 2
           \<and> ngets w2 (build_file_url mon n)
               = ngets w (build_file_url mon n) + 3 * count_list names n"
proof -
  from n have ne: "names \<noteq> []" by auto
  note l = stable_listing[OF stable names ne]
  let ?w0 = "sent_propfind (month_url mon) w"
  let ?todo = "filter (\<lambda>m. \<not> present (fs w) (out_path_of self mon m)) names"
  from n absent have t: "?todo \<noteq> []" by (auto simp: filter_empty_conv)
  obtain fetched w1 where rt:
    "run_tasks env self mon (map (\<lambda>m. (m, out_path_of self mon m)) ?todo) [] ?w0 = (fetched, w1)"
    by (cases "run_tasks env self mon (map (\<lambda>m. (m, out_path_of self mon m)) ?todo) [] ?w0")
  let ?res = "\<lparr>downloaded = fetched, skipped = map (out_path_of self mon)
                  (filter (\<lambda>n. present (fs w) (out_path_of self mon n)) names)\<rparr>"
  have d: "download_once env self mon w = (Inr ?res, w1)"
    using l[of w] t rt by (simp add: download_once_def diff_names_eq)
  have c1: "ngets w1 (build_file_url mon n)
              = ngets w (build_file_url mon n) + 3 * count_list names n"
    using run_tasks_all_fail_count[OF fail rt] absent by (simp add: count_list_filter)
  have n1: "nlist w1 = nlist w + 1"
    using run_tasks_effect[OF rt] by simp
  note a1 = download_once_keeps_absent[OF fail d absent]
  let ?missing = "filter (\<lambda>m. \<not> present (fs w1) (out_path_of self mon m)) names"
  have c: "find_missing_zips env self mon w1 = (Inr ?missing, sent_propfind (month_url mon) w1)"
    using l[of w1] by (simp add: find_missing_zips_Inr)
  have m: "?missing \<noteq> []" using n a1 by (auto simp: filter_empty_conv)
  have "\<not> present (fs (sent_propfind (month_url mon) w1)) (out_path_of self mon n)"
    using a1 by simp
  moreover have "nlist (sent_propfind (month_url mon) w1) = nlist w + 2" using n1 by simp
  moreover have "ngets (sent_propfind (month_url mon) w1) (build_file_url mon n)
               = ngets w (build_file_url mon n) + 3 * count_list names n" using c1 by simp
  ultimately show ?thesis using d c m by blast
qed

lemma failing_file_rounds:
  assumes stable: "\<forall>k. propfind_zips env (month_url mon) k = ListBody hrefs"
    and names: "collect_zips hrefs [] = Inr names" and n: "n \<in> set names"
    and fail: "\<forall>k. \<exists>e. get_file env (build_file_url mon n) k = GetRaise e \<and> caught e"
  shows "\<not> present (fs w) (out_path_of self mon n) \<Longrightarrow>
     \<exists>w'. month_loop env self mon mx k d s w
            = (Inl (RuntimeError (''[DOWNLOADER] Failed to fully download month '' @ mon
                             @ '' after '' @ str_nat mx @ '' rounds'')), w')
        \<and> nlist w' = nlist w + 2 * (Suc mx - k)
        \<and> ngets w' (build_file_url mon n)
            = ngets w (build_file_url mon n) + 3 * count_list names n * (Suc mx - k)"
proof (induction "Suc mx - k" arbitrary: k d s w)
  case 0
  then have "mx < k" by simp
  with 0 show ?case by (simp add: month_loop_out)
next
  case (Suc j)
  then have le: "k \<le> mx" by simp
  have "\<not> present (fs (emit (Round k) w)) (out_path_of self mon n)" using Suc.prems by simp
  from failing_file_round[OF stable names n fail this]
  obtain res w1 missing w2 where
    once: "download_once env self mon (emit (Round k) w) = (Inr res, w1)"
    and chk: "find_missing_zips env self mon w1 = (Inr missing, w2)"
    and m: "missing \<noteq> []" and a: "\<not> present (fs w2) (out_path_of self mon n)"
    and c1: "nlist w2 = nlist (emit (Round k) w) + 2"
    and c2: "ngets w2 (build_file_url mon n)
               = ngets (emit (Round k) w) (build_file_url mon n) + 3 * count_list names n"
    by blast
  have j: "j = Suc mx - Suc k" using Suc.hyps(2) by simp
  from a have a': "\<not> present (fs (emit (Sleep 10) w2)) (out_path_of self mon n)" by simp
  from Suc.hyps(1)[OF j a', of "d @ downloaded res" "skipped res"]
  obtain w' where
    r: "month_loop env self mon mx (Suc k) (d @ downloaded res) (skipped res) (emit (Sleep 10) w2)
            = (Inl (RuntimeError (''[DOWNLOADER] Failed to fully download month '' @ mon
                             @ '' after '' @ str_nat mx @ '' rounds'')), w')"
    and r1: "nlist w' = nlist (emit (Sleep 10) w2) + 2 * (Suc mx - Suc k)"
    and r2: "ngets w' (build_file_url mon n)
            = ngets (emit (Sleep 10) w2) (build_file_url mon n)
              + 3 * count_list names n * (Suc mx - Suc k)"
    by blast
  have e: "Suc mx - k = Suc (Suc mx - Suc k)" using le by simp
  have "nlist w' = nlist w + 2 * (Suc mx - k)" unfolding e using r1 c1 by simp
  moreover have "ngets w' (build_file_url mon n)
            = ngets w (build_file_url mon n) + 3 * count_list names n * (Suc mx - k)"
    unfolding e using r2 c2 by simp
  ultimately show ?case
    unfolding month_loop_again[OF le once chk m] using r by blast
qed

lemma upt_1_6: "[Suc 0..<Suc 0 + 5] = [1, 2, 3, 4, 5]"
  by code_simp

lemma five_rounds_facts:
  assumes len: "length rs = 5" and ch: "rounds_from env self mon (Suc 0) w rs"
  shows "[j. Round j \<leftarrow> trace (round_end (last rs))] = [j. Round j \<leftarrow> trace w] @ [1, 2, 3, 4, 5]"
    "nlist w + 10 \<le> nlist (round_end (last rs))"
    "nlist (round_end (last rs)) \<le> nlist w + 50"
proof -
  from len have ne: "rs \<noteq> []" by auto
  note f = rounds_from_facts[OF ch ne, unfolded len]
  from f show "[j. Round j \<leftarrow> trace (round_end (last rs))] = [j. Round j \<leftarrow> trace w] @ [1, 2, 3, 4, 5]"
    unfolding upt_1_6 by (rule conjunct1)
  from f show "nlist w + 10 \<le> nlist (round_end (last rs))" by simp
  from f show "nlist (round_end (last rs)) \<le> nlist w + 50" by simp
qed

lemma download_month_incomplete_iff:
  "download_month env self mon w
        = (Inl (RuntimeError (''[DOWNLOADER] Failed to fully download month '' @ mon
                                @ '' after 5 rounds'')), w')
   \<longleftrightarrow> (\<exists>rs. length rs = 5 \<and> rounds_from env self mon 1 w rs
          \<and> (\<forall>r \<in> set rs. round_missing r \<noteq> [])
          \<and> w' = emit (Sleep 10) (round_end (last rs)))"
proof -
  have "download_month env self mon w
        = (Inl (RuntimeError (''[DOWNLOADER] Failed to fully download month '' @ mon
                                @ '' after 5 rounds'')), w')
     \<longleftrightarrow> (\<exists>rs. length rs = 5 \<and> rounds_from env self mon (Suc 0) w rs
          \<and> round_missing (last rs) \<noteq> [] \<and> w' = emit (Sleep 10) (round_end (last rs)))"
    using month_loop_incomplete_iff[of env self mon 5 "Suc 0" "[]" "[]" w w']
    by (simp add: download_month_def str_nat_5)
  also have "\<dots> \<longleftrightarrow> (\<exists>rs. length rs = 5 \<and> rounds_from env self mon (Suc 0) w rs
          \<and> (\<forall>r \<in> set rs. round_missing r \<noteq> [])
          \<and> w' = emit (Sleep 10) (round_end (last rs)))"
  proof -
    have "round_missing (last rs) \<noteq> [] \<longleftrightarrow> (\<forall>r \<in> set rs. round_missing r \<noteq> [])"
      if "length rs = 5" "rounds_from env self mon (Suc 0) w rs" for rs
    proof -
      from that(1) have "rs \<noteq> []" by auto
      from rounds_from_all_missing[OF that(2) this] show ?thesis .
    qed
    then show ?thesis by blast
  qed
  finally show ?thesis by simp
qed

lemma failing_file_month:
  assumes stable: "\<forall>k. propfind_zips env (month_url mon) k = ListBody hrefs"
    and names: "collect_zips hrefs [] = Inr names" and n: "n \<in> set names"
    and fail: "\<forall>k. \<exists>e. get_file env (build_file_url mon n) k = GetRaise e \<and> caught e"
    and absent: "\<not> present (fs w) (out_path_of self mon n)"
  shows "\<exists>v. download_month env self mon w
            = (Inl (RuntimeError (''[DOWNLOADER] Failed to fully download month '' @ mon
                                @ '' after 5 rounds'')), v)
        \<and> nlist v = nlist w + 10
        \<and> ngets v (build_file_url mon n)
            = ngets w (build_file_url mon n) + 15 * count_list names n"
  using failing_file_rounds[OF stable names n fail absent, of 5 "Suc 0" "[]" "[]"]
  by (simp add: download_month_def str_nat_5)

lemma all_missing_at_end:
  assumes stable: "\<forall>k. propfind_zips env (month_url mon) k = ListBody hrefs"
    and names: "collect_zips hrefs [] = Inr names" and ne: "names \<noteq> []"
    and fail: "\<forall>n \<in> set names. \<forall>k. \<exists>e. get_file env (build_file_url mon n) k = GetRaise e \<and> caught e"
    and absent: "\<forall>n \<in> set names. \<not> present (fs w) (out_path_of self mon n)"
  shows "fst (download_month env self mon w)
           = Inl (RuntimeError (''[DOWNLOADER] Failed to fully download month '' @ mon
                       @ '' after 5 rounds''))
         \<and> fst (find_missing_zips env self mon (snd (download_month env self mon w))) = Inr names"
proof
  from ne obtain n where n: "n \<in> set names" by (cases names) auto
  with fail absent have "\<forall>k. \<exists>e. get_file env (build_file_url mon n) k = GetRaise e \<and> caught e"
    "\<not> present (fs w) (out_path_of self mon n)" by blast+
  from failing_file_month[OF stable names n this]
  show "fst (download_month env self mon w)
           = Inl (RuntimeError (''[DOWNLOADER] Failed to fully download month '' @ mon
                       @ '' after 5 rounds''))"
    by auto
next
  let ?w = "snd (download_month env self mon w)"
  have "\<not> present (fs ?w) (out_path_of self mon n)" if "n \<in> set names" for n
  proof -
    from that fail absent have
      f: "\<forall>k. \<exists>e. get_file env (build_file_url mon n) k = GetRaise e \<and> caught e"
      and a: "\<not> present (fs w) (out_path_of self mon n)" by blast+
    from month_loop_keeps_absent[OF f, of w self 5 1 "[]" "[]"] a
    show ?thesis by (simp add: download_month_def)
  qed
  then have "filter (\<lambda>m. \<not> present (fs ?w) (out_path_of self mon m)) names = names"
    by (simp add: filter_id_conv)
  with stable_listing[OF stable names ne, of ?w]
  have "find_missing_zips env self mon ?w = (Inr names, sent_propfind (month_url mon) ?w)"
    by (simp add: find_missing_zips_Inr)
  then show "fst (find_missing_zips env self mon ?w) = Inr names" by simp
qed

text \<open>
  Claim C2, as the code has it.

  \<^item> \<^verbatim>\<open>download_month\<close> raises one of two errors, each naming the month: the listing
    error, or the error of the incomplete month, which names the month and the number of
    rounds (5), not the number of missing files.
  \<^item> It raises the latter exactly when five rounds ran one after the other from the
    initial state, each a call of \<^verbatim>\<open>_download_once\<close> and a call of
    \<^verbatim>\<open>_find_missing_zips\<close> that found some file missing; no result is returned then,
    and the state left is that of the fifth round after its sleep.
  \<^item> Five such rounds are announced as rounds 1 to 5 and send between 10 and 50 listing
    requests; each lists the month, sends GETs for exactly the listed names whose file is
    absent or empty, and lists the month again for the check.
  \<^item> When the remote always gives the same listing and every GET of one listed file
    fails with a caught exception, the file being absent at the start,
    \<^verbatim>\<open>download_month\<close> raises that error after 10 listing requests and 15 GETs of the
    file (for each time the listing names it).
\<close>

theorem incomplete_month_fails:
  "(download_month env self mon w = (Inl e, w') \<longrightarrow>
      e = RuntimeError (''[DOWNLOADER] Failed to fully download month '' @ mon @ '' after 5 rounds'')
      \<or> e = RuntimeError (''Failed to list ZIPs for '' @ mon))
   \<and> (download_month env self mon w
        = (Inl (RuntimeError (''[DOWNLOADER] Failed to fully download month '' @ mon
                                @ '' after 5 rounds'')), w')
      \<longleftrightarrow> (\<exists>rs. length rs = 5 \<and> rounds_from env self mon 1 w rs
             \<and> (\<forall>r \<in> set rs. round_missing r \<noteq> [])
             \<and> w' = emit (Sleep 10) (round_end (last rs))))
   \<and> (length rs = 5 \<and> rounds_from env self mon 1 w rs \<longrightarrow>
        [j. Round j \<leftarrow> trace (round_end (last rs))] = [j. Round j \<leftarrow> trace w] @ [1, 2, 3, 4, 5]
        \<and> nlist w + 10 \<le> nlist (round_end (last rs))
        \<and> nlist (round_end (last rs)) \<le> nlist w + 50
        \<and> (\<forall>r \<in> set rs. \<exists>listed v expected.
              list_month_zips env mon 5 (round_start r) = (Inr listed, v)
              \<and> {u. ngets (round_start r) u < ngets (round_checked r) u}
                  = build_file_url mon
                      ` {n \<in> set listed. \<not> present (fs (round_start r)) (out_path_of self mon n)}
              \<and> list_month_zips env mon 5 (round_checked r) = (Inr expected, round_end r)
              \<and> round_missing r
                  = filter (\<lambda>n. \<not> present (fs (round_checked r)) (out_path_of self mon n))
                      expected))
   \<and> ((\<forall>k. propfind_zips env (month_url mon) k = ListBody hrefs)
        \<and> collect_zips hrefs [] = Inr names \<and> n \<in> set names
        \<and> (\<forall>k. \<exists>x. get_file env (build_file_url mon n) k = GetRaise x \<and> caught x)
        \<and> \<not> present (fs w) (out_path_of self mon n)
        \<longrightarrow> (\<exists>v. download_month env self mon w
                   = (Inl (RuntimeError (''[DOWNLOADER] Failed to fully download month '' @ mon
                                           @ '' after 5 rounds'')), v)
                 \<and> nlist v = nlist w + 10
                 \<and> ngets v (build_file_url mon n)
                     = ngets w (build_file_url mon n) + 15 * count_list names n))"
proof (intro conjI impI)
  assume "download_month env self mon w = (Inl e, w')"
  with month_loop_errors[of env self mon 5 1 "[]" "[]" w]
  show "e = RuntimeError (''[DOWNLOADER] Failed to fully download month '' @ mon @ '' after 5 rounds'')
      \<or> e = RuntimeError (''Failed to list ZIPs for '' @ mon)"
    by (simp add: download_month_def str_nat_5)
next
  show "download_month env self mon w
        = (Inl (RuntimeError (''[DOWNLOADER] Failed to fully download month '' @ mon
                                @ '' after 5 rounds'')), w')
      \<longleftrightarrow> (\<exists>rs. length rs = 5 \<and> rounds_from env self mon 1 w rs
             \<and> (\<forall>r \<in> set rs. round_missing r \<noteq> [])
             \<and> w' = emit (Sleep 10) (round_end (last rs)))"
    by (rule download_month_incomplete_iff)
next
  assume a: "length rs = 5 \<and> rounds_from env self mon 1 w rs"
  then have len: "length rs = 5" and ch: "rounds_from env self mon (Suc 0) w rs" by simp_all
  from five_rounds_facts[OF len ch]
  show "[j. Round j \<leftarrow> trace (round_end (last rs))] = [j. Round j \<leftarrow> trace w] @ [1, 2, 3, 4, 5]"
    "nlist w + 10 \<le> nlist (round_end (last rs))"
    "nlist (round_end (last rs)) \<le> nlist w + 50" .
  show "\<forall>r \<in> set rs. \<exists>listed v expected.
              list_month_zips env mon 5 (round_start r) = (Inr listed, v)
              \<and> {u. ngets (round_start r) u < ngets (round_checked r) u}
                  = build_file_url mon
                      ` {n \<in> set listed. \<not> present (fs (round_start r)) (out_path_of self mon n)}
              \<and> list_month_zips env mon 5 (round_checked r) = (Inr expected, round_end r)
              \<and> round_missing r
                  = filter (\<lambda>n. \<not> present (fs (round_checked r)) (out_path_of self mon n))
                      expected"
  proof
    fix r assume "r \<in> set rs"
    from rounds_from_requests[OF ch this] show "\<exists>listed v expected.
              list_month_zips env mon 5 (round_start r) = (Inr listed, v)
              \<and> {u. ngets (round_start r) u < ngets (round_checked r) u}
                  = build_file_url mon
                      ` {n \<in> set listed. \<not> present (fs (round_start r)) (out_path_of self mon n)}
              \<and> list_month_zips env mon 5 (round_checked r) = (Inr expected, round_end r)
              \<and> round_missing r
                  = filter (\<lambda>n. \<not> present (fs (round_checked r)) (out_path_of self mon n))
                      expected"
      by blast
  qed
next
  assume a: "(\<forall>k. propfind_zips env (month_url mon) k = ListBody hrefs)
        \<and> collect_zips hrefs [] = Inr names \<and> n \<in> set names
        \<and> (\<forall>k. \<exists>x. get_file env (build_file_url mon n) k = GetRaise x \<and> caught x)
        \<and> \<not> present (fs w) (out_path_of self mon n)"
  show "\<exists>v. download_month env self mon w
                   = (Inl (RuntimeError (''[DOWNLOADER] Failed to fully download month '' @ mon
                                           @ '' after 5 rounds'')), v)
                 \<and> nlist v = nlist w + 10
                 \<and> ngets v (build_file_url mon n)
                     = ngets w (build_file_url mon n) + 15 * count_list names n"
    by (rule failing_file_month[where hrefs = hrefs]) (use a in blast)+
qed

theorem incomplete_month_fails_witness:
  "fst (download_month
     \<lparr>propfind_zips = \<lambda>u k. ListBody [Some ''/d/2024-05/'', Some ''/d/2024-05/cnae.zip''],
      propfind_folders = \<lambda>k. FoldersRaise URLError,
      get_file = \<lambda>u k. GetRaise TimeoutError\<rparr>
     \<lparr>public_token = ''tok'', raw_dir = ''raw'', max_workers = 2\<rparr> ''2024-05''
     \<lparr>fs = \<lambda>p. None, nlist = 0, ngets = \<lambda>u. 0, trace = []\<rparr>)
     = Inl (RuntimeError ''[DOWNLOADER] Failed to fully download month 2024-05 after 5 rounds'')
   \<and> nlist (snd (download_month
     \<lparr>propfind_zips = \<lambda>u k. ListBody [Some ''/d/2024-05/'', Some ''/d/2024-05/cnae.zip''],
      propfind_folders = \<lambda>k. FoldersRaise URLError,
      get_file = \<lambda>u k. GetRaise TimeoutError\<rparr>
     \<lparr>public_token = ''tok'', raw_dir = ''raw'', max_workers = 2\<rparr> ''2024-05''
     \<lparr>fs = \<lambda>p. None, nlist = 0, ngets = \<lambda>u. 0, trace = []\<rparr>)) = 10
   \<and> ngets (snd (download_month
     \<lparr>propfind_zips = \<lambda>u k. ListBody [Some ''/d/2024-05/'', Some ''/d/2024-05/cnae.zip''],
      propfind_folders = \<lambda>k. FoldersRaise URLError,
      get_file = \<lambda>u k. GetRaise TimeoutError\<rparr>
     \<lparr>public_token = ''tok'', raw_dir = ''raw'', max_workers = 2\<rparr> ''2024-05''
     \<lparr>fs = \<lambda>p. None, nlist = 0, ngets = \<lambda>u. 0, trace = []\<rparr>))
       (build_file_url ''2024-05'' ''cnae.zip'') = 15
   \<and> [j. Round j \<leftarrow> trace (snd (download_month
     \<lparr>propfind_zips = \<lambda>u k. ListBody [Some ''/d/2024-05/'', Some ''/d/2024-05/cnae.zip''],
      propfind_folders = \<lambda>k. FoldersRaise URLError,
      get_file = \<lambda>u k. GetRaise TimeoutError\<rparr>
     \<lparr>public_token = ''tok'', raw_dir = ''raw'', max_workers = 2\<rparr> ''2024-05''
     \<lparr>fs = \<lambda>p. None, nlist = 0, ngets = \<lambda>u. 0, trace = []\<rparr>))] = [1, 2, 3, 4, 5]"
proof -
  let ?hrefs = "[Some ''/d/2024-05/'', Some ''/d/2024-05/cnae.zip'']"
  let ?env = "\<lparr>propfind_zips = \<lambda>u k. ListBody ?hrefs,
      propfind_folders = \<lambda>k. FoldersRaise URLError,
      get_file = \<lambda>u k. GetRaise TimeoutError\<rparr>"
  let ?self = "\<lparr>public_token = ''tok'', raw_dir = ''raw'', max_workers = 2\<rparr>"
  let ?w = "\<lparr>fs = \<lambda>p. None, nlist = 0, ngets = \<lambda>u. 0, trace = []\<rparr> :: world"
  let ?msg = "RuntimeError (''[DOWNLOADER] Failed to fully download month '' @ ''2024-05''
                                 @ '' after 5 rounds'')"
  let ?run = "download_month ?env ?self ''2024-05'' ?w"
  let ?url = "build_file_url ''2024-05'' ''cnae.zip''"
  have c: "collect_zips ?hrefs [] = Inr [''cnae.zip'']" by code_simp
  have h: "(\<forall>k. propfind_zips ?env (month_url ''2024-05'') k = ListBody ?hrefs)
        \<and> collect_zips ?hrefs [] = Inr [''cnae.zip''] \<and> ''cnae.zip'' \<in> set [''cnae.zip'']
        \<and> (\<forall>k. \<exists>x. get_file ?env (build_file_url ''2024-05'' ''cnae.zip'') k = GetRaise x \<and> caught x)
        \<and> \<not> present (fs ?w) (out_path_of ?self ''2024-05'' ''cnae.zip'')"
    using c by (simp add: present_def del: collect_zips.simps)
  note t = incomplete_month_fails[where env = ?env and self = ?self and mon = "''2024-05''"
      and w = ?w and hrefs = ?hrefs and names = "[''cnae.zip'']" and n = "''cnae.zip''"]
  from t[where w' = ?w and rs = "[]", THEN conjunct2, THEN conjunct2, THEN conjunct2, THEN mp, OF h]
  obtain v where v: "?run = (Inl ?msg, v)
      \<and> nlist v = nlist ?w + 10
      \<and> ngets v ?url = ngets ?w ?url + 15 * count_list [''cnae.zip''] ''cnae.zip''" ..
  note run = v[THEN conjunct1]
  have sv: "snd ?run = v" unfolding run by (rule snd_conv)
  have f: "fst ?run = Inl ?msg" unfolding run by (rule fst_conv)
  have n10: "nlist v = 10" using v[THEN conjunct2, THEN conjunct1] by simp
  have g15: "ngets v ?url = 15" using v[THEN conjunct2, THEN conjunct2] by simp
  from t[where w' = v and rs = "[]", THEN conjunct2, THEN conjunct1, THEN iffD1, OF run]
  obtain rs where rs: "length rs = 5 \<and> rounds_from ?env ?self ''2024-05'' 1 ?w rs
             \<and> (\<forall>r \<in> set rs. round_missing r \<noteq> [])
             \<and> v = emit (Sleep 10) (round_end (last rs))" ..
  have v': "v = emit (Sleep 10) (round_end (last rs))"
    using rs by (elim conjE)
  from t[where w' = v and rs = rs, THEN conjunct2, THEN conjunct2, THEN conjunct1, THEN mp,
      OF conjI[OF rs[THEN conjunct1] rs[THEN conjunct2, THEN conjunct1]], THEN conjunct1]
  have "[j. Round j \<leftarrow> trace (round_end (last rs))] = [j. Round j \<leftarrow> trace ?w] @ [1, 2, 3, 4, 5]" .
  then have tr: "[j. Round j \<leftarrow> trace v] = [1, 2, 3, 4, 5]"
    unfolding v' by simp
  from f n10 g15 tr show ?thesis unfolding sv by simp
qed

text \<open>
  One file missing in every round, or two: the error raised is the same value, so it does
  not tell how many files are still missing.
\<close>

theorem incomplete_month_error_counterexample:
  "fst (download_month
     \<lparr>propfind_zips = \<lambda>u k. ListBody [Some ''/d/2024-05/'', Some ''/d/2024-05/cnae.zip''],
      propfind_folders = \<lambda>k. FoldersRaise URLError,
      get_file = \<lambda>u k. GetRaise TimeoutError\<rparr>
     \<lparr>public_token = ''tok'', raw_dir = ''raw'', max_workers = 2\<rparr> ''2024-05''
     \<lparr>fs = \<lambda>p. None, nlist = 0, ngets = \<lambda>u. 0, trace = []\<rparr>)
     = Inl (RuntimeError ''[DOWNLOADER] Failed to fully download month 2024-05 after 5 rounds'')
   \<and> fst (find_missing_zips
     \<lparr>propfind_zips = \<lambda>u k. ListBody [Some ''/d/2024-05/'', Some ''/d/2024-05/cnae.zip''],
      propfind_folders = \<lambda>k. FoldersRaise URLError,
      get_file = \<lambda>u k. GetRaise TimeoutError\<rparr>
     \<lparr>public_token = ''tok'', raw_dir = ''raw'', max_workers = 2\<rparr> ''2024-05''
     (snd (download_month
       \<lparr>propfind_zips = \<lambda>u k. ListBody [Some ''/d/2024-05/'', Some ''/d/2024-05/cnae.zip''],
        propfind_folders = \<lambda>k. FoldersRaise URLError,
        get_file = \<lambda>u k. GetRaise TimeoutError\<rparr>
       \<lparr>public_token = ''tok'', raw_dir = ''raw'', max_workers = 2\<rparr> ''2024-05''
       \<lparr>fs = \<lambda>p. None, nlist = 0, ngets = \<lambda>u. 0, trace = []\<rparr>))) = Inr [''cnae.zip'']
   \<and> fst (download_month
     \<lparr>propfind_zips = \<lambda>u k. ListBody [Some ''/d/2024-05/cnae.zip'', Some ''/d/2024-05/empresas1.zip''],
      propfind_folders = \<lambda>k. FoldersRaise URLError,
      get_file = \<lambda>u k. GetRaise TimeoutError\<rparr>
     \<lparr>public_token = ''tok'', raw_dir = ''raw'', max_workers = 2\<rparr> ''2024-05''
     \<lparr>fs = \<lambda>p. None, nlist = 0, ngets = \<lambda>u. 0, trace = []\<rparr>)
     = Inl (RuntimeError ''[DOWNLOADER] Failed to fully download month 2024-05 after 5 rounds'')
   \<and> fst (find_missing_zips
     \<lparr>propfind_zips = \<lambda>u k. ListBody [Some ''/d/2024-05/cnae.zip'', Some ''/d/2024-05/empresas1.zip''],
      propfind_folders = \<lambda>k. FoldersRaise URLError,
      get_file = \<lambda>u k. GetRaise TimeoutError\<rparr>
     \<lparr>public_token = ''tok'', raw_dir = ''raw'', max_workers = 2\<rparr> ''2024-05''
     (snd (download_month
       \<lparr>propfind_zips = \<lambda>u k. ListBody [Some ''/d/2024-05/cnae.zip'', Some ''/d/2024-05/empresas1.zip''],
        propfind_folders = \<lambda>k. FoldersRaise URLError,
        get_file = \<lambda>u k. GetRaise TimeoutError\<rparr>
       \<lparr>public_token = ''tok'', raw_dir = ''raw'', max_workers = 2\<rparr> ''2024-05''
       \<lparr>fs = \<lambda>p. None, nlist = 0, ngets = \<lambda>u. 0, trace = []\<rparr>)))
     = Inr [''cnae.zip'', ''empresas1.zip'']"
proof -
  let ?h1 = "[Some ''/d/2024-05/'', Some ''/d/2024-05/cnae.zip'']"
  let ?h2 = "[Some ''/d/2024-05/cnae.zip'', Some ''/d/2024-05/empresas1.zip'']"
  let ?e1 = "\<lparr>propfind_zips = \<lambda>u k. ListBody ?h1,
      propfind_folders = \<lambda>k. FoldersRaise URLError,
      get_file = \<lambda>u k. GetRaise TimeoutError\<rparr>"
  let ?e2 = "\<lparr>propfind_zips = \<lambda>u k. ListBody ?h2,
      propfind_folders = \<lambda>k. FoldersRaise URLError,
      get_file = \<lambda>u k. GetRaise TimeoutError\<rparr>"
  let ?self = "\<lparr>public_token = ''tok'', raw_dir = ''raw'', max_workers = 2\<rparr>"
  let ?w = "\<lparr>fs = \<lambda>p. None, nlist = 0, ngets = \<lambda>u. 0, trace = []\<rparr> :: world"
  have c1: "collect_zips ?h1 [] = Inr [''cnae.zip'']" by code_simp
  have c2: "collect_zips ?h2 [] = Inr [''cnae.zip'', ''empresas1.zip'']" by code_simp
  have a1: "fst (download_month ?e1 ?self ''2024-05'' ?w)
           = Inl (RuntimeError (''[DOWNLOADER] Failed to fully download month '' @ ''2024-05''
                       @ '' after 5 rounds''))
         \<and> fst (find_missing_zips ?e1 ?self ''2024-05'' (snd (download_month ?e1 ?self ''2024-05'' ?w)))
           = Inr [''cnae.zip'']"
    by (rule all_missing_at_end[where hrefs = ?h1, OF _ c1]) (simp_all add: present_def)
  have a2: "fst (download_month ?e2 ?self ''2024-05'' ?w)
           = Inl (RuntimeError (''[DOWNLOADER] Failed to fully download month '' @ ''2024-05''
                       @ '' after 5 rounds''))
         \<and> fst (find_missing_zips ?e2 ?self ''2024-05'' (snd (download_month ?e2 ?self ''2024-05'' ?w)))
           = Inr [''cnae.zip'', ''empresas1.zip'']"
    by (rule all_missing_at_end[where hrefs = ?h2, OF _ c2]) (simp_all add: present_def)
  from a1 a2 show ?thesis by simp
qed


section \<open>A transfer cut short\<close>

text \<open>
  One file is listed and is absent. The answer to its GET has a \<^verbatim>\<open>zip\<close> content type
  and two chunks, after which \<^verbatim>\<open>resp.read\<close> raises an exception that is not of the
  classes of the \<^verbatim>\<open>except\<close> clause (an \<^verbatim>\<open>http.client.IncompleteRead\<close>, a
  \<^verbatim>\<open>ConnectionAbortedError\<close> or an \<^verbatim>\<open>ssl.SSLError\<close>, for instance).
\<close>

lemma truncated_run:
  "fst (download_file
     \<lparr>propfind_zips = \<lambda>u k. ListBody [Some ''/d/2024-05/cnae.zip''],
      propfind_folders = \<lambda>k. FoldersRaise URLError,
      get_file = \<lambda>u k. GetResp (Some ''application/zip'') True [''PK'', ''data''] (Some OtherError)\<rparr>
     (build_file_url ''2024-05'' ''cnae.zip'') ''raw/2024-05/cnae.zip'' 3
     \<lparr>fs = \<lambda>p. None, nlist = 0, ngets = \<lambda>u. 0, trace = []\<rparr>) = Inl OtherError
   \<and> fs (snd (download_file
     \<lparr>propfind_zips = \<lambda>u k. ListBody [Some ''/d/2024-05/cnae.zip''],
      propfind_folders = \<lambda>k. FoldersRaise URLError,
      get_file = \<lambda>u k. GetResp (Some ''application/zip'') True [''PK'', ''data''] (Some OtherError)\<rparr>
     (build_file_url ''2024-05'' ''cnae.zip'') ''raw/2024-05/cnae.zip'' 3
     \<lparr>fs = \<lambda>p. None, nlist = 0, ngets = \<lambda>u. 0, trace = []\<rparr>)) ''raw/2024-05/cnae.zip''
       = Some ''PKdata''
   \<and> fst (list_month_zips
     \<lparr>propfind_zips = \<lambda>u k. ListBody [Some ''/d/2024-05/cnae.zip''],
      propfind_folders = \<lambda>k. FoldersRaise URLError,
      get_file = \<lambda>u k. GetResp (Some ''application/zip'') True [''PK'', ''data''] (Some OtherError)\<rparr>
     ''2024-05'' 5 \<lparr>fs = \<lambda>p. None, nlist = 0, ngets = \<lambda>u. 0, trace = []\<rparr>) = Inr [''cnae.zip'']
   \<and> out_path_of \<lparr>public_token = ''tok'', raw_dir = ''raw'', max_workers = 2\<rparr> ''2024-05'' ''cnae.zip''
       = ''raw/2024-05/cnae.zip''
   \<and> fst (download_month
     \<lparr>propfind_zips = \<lambda>u k. ListBody [Some ''/d/2024-05/cnae.zip''],
      propfind_folders = \<lambda>k. FoldersRaise URLError,
      get_file = \<lambda>u k. GetResp (Some ''application/zip'') True [''PK'', ''data''] (Some OtherError)\<rparr>
     \<lparr>public_token = ''tok'', raw_dir = ''raw'', max_workers = 2\<rparr> ''2024-05''
     \<lparr>fs = \<lambda>p. None, nlist = 0, ngets = \<lambda>u. 0, trace = []\<rparr>)
       = Inr \<lparr>downloaded = [], skipped = []\<rparr>
   \<and> fs (snd (download_month
     \<lparr>propfind_zips = \<lambda>u k. ListBody [Some ''/d/2024-05/cnae.zip''],
      propfind_folders = \<lambda>k. FoldersRaise URLError,
      get_file = \<lambda>u k. GetResp (Some ''application/zip'') True [''PK'', ''data''] (Some OtherError)\<rparr>
     \<lparr>public_token = ''tok'', raw_dir = ''raw'', max_workers = 2\<rparr> ''2024-05''
     \<lparr>fs = \<lambda>p. None, nlist = 0, ngets = \<lambda>u. 0, trace = []\<rparr>)) ''raw/2024-05/cnae.zip''
       = Some ''PKdata''"
proof -
  let ?env = "\<lparr>propfind_zips = \<lambda>u k. ListBody [Some ''/d/2024-05/cnae.zip''],
      propfind_folders = \<lambda>k. FoldersRaise URLError,
      get_file = \<lambda>u k. GetResp (Some ''application/zip'') True [''PK'', ''data''] (Some OtherError)\<rparr>"
  let ?self = "\<lparr>public_token = ''tok'', raw_dir = ''raw'', max_workers = 2\<rparr>"
  let ?w = "\<lparr>fs = \<lambda>p. None, nlist = 0, ngets = \<lambda>u. 0, trace = []\<rparr> :: world"
  let ?d = "download_file ?env (build_file_url ''2024-05'' ''cnae.zip'') ''raw/2024-05/cnae.zip'' 3 ?w"
  let ?o1 = "download_once ?env ?self ''2024-05'' (emit (Round 1) ?w)"
  let ?c1 = "find_missing_zips ?env ?self ''2024-05'' (snd ?o1)"
  have d1: "fst ?d = Inl OtherError" by code_simp
  have d2: "fs (snd ?d) ''raw/2024-05/cnae.zip'' = Some ''PKdata''" by code_simp
  have l: "fst (list_month_zips ?env ''2024-05'' 5 ?w) = Inr [''cnae.zip'']" by code_simp
  have p: "out_path_of ?self ''2024-05'' ''cnae.zip'' = ''raw/2024-05/cnae.zip''" by code_simp
  have o1: "fst ?o1 = Inr \<lparr>downloaded = [], skipped = []\<rparr>" by code_simp
  have c1: "fst ?c1 = Inr []" by code_simp
  have k: "fs (snd ?c1) ''raw/2024-05/cnae.zip'' = Some ''PKdata''" by code_simp
  have o1': "?o1 = (Inr \<lparr>downloaded = [], skipped = []\<rparr>, snd ?o1)"
    using o1 by (simp only: prod_eq_iff fst_conv snd_conv simp_thms)
  have c1': "?c1 = (Inr [], snd ?c1)"
    using c1 by (simp only: prod_eq_iff fst_conv snd_conv simp_thms)
  have s: "month_loop ?env ?self ''2024-05'' 5 1 [] [] ?w
          = (Inr \<lparr>downloaded = [] @ downloaded \<lparr>downloaded = [], skipped = []\<rparr>,
                  skipped = skipped \<lparr>downloaded = [], skipped = []\<rparr>\<rparr>, snd ?c1)"
    by (rule month_loop_complete[OF _ o1' c1']) simp
  have m1: "fst (download_month ?env ?self ''2024-05'' ?w) = Inr \<lparr>downloaded = [], skipped = []\<rparr>"
    unfolding download_month_def s by simp
  have m2: "fs (snd (download_month ?env ?self ''2024-05'' ?w)) ''raw/2024-05/cnae.zip''
              = Some ''PKdata''"
    unfolding download_month_def s snd_conv by (rule k)
  from d1 d2 l p m1 m2 show ?thesis by (intro conjI)
qed

text \<open>
  Claim C3 does not hold of the code. \<^verbatim>\<open>_download_file\<close> catches four classes of
  exception only. When the reading of the body raises another one, the exception leaves
  \<^verbatim>\<open>_download_file\<close> at the first attempt and the bytes written so far stay at the
  target path: a file of nonzero size. \<^verbatim>\<open>download_month\<close> then finds no file missing
  and returns normally, the truncated file still in place.
\<close>

theorem truncated_transfer_is_kept:
  "fst (download_file
     \<lparr>propfind_zips = \<lambda>u k. ListBody [Some ''/d/2024-05/cnae.zip''],
      propfind_folders = \<lambda>k. FoldersRaise URLError,
      get_file = \<lambda>u k. GetResp (Some ''application/zip'') True [''PK'', ''data''] (Some OtherError)\<rparr>
     (build_file_url ''2024-05'' ''cnae.zip'') ''raw/2024-05/cnae.zip'' 3
     \<lparr>fs = \<lambda>p. None, nlist = 0, ngets = \<lambda>u. 0, trace = []\<rparr>) = Inl OtherError
   \<and> fs (snd (download_file
     \<lparr>propfind_zips = \<lambda>u k. ListBody [Some ''/d/2024-05/cnae.zip''],
      propfind_folders = \<lambda>k. FoldersRaise URLError,
      get_file = \<lambda>u k. GetResp (Some ''application/zip'') True [''PK'', ''data''] (Some OtherError)\<rparr>
     (build_file_url ''2024-05'' ''cnae.zip'') ''raw/2024-05/cnae.zip'' 3
     \<lparr>fs = \<lambda>p. None, nlist = 0, ngets = \<lambda>u. 0, trace = []\<rparr>)) ''raw/2024-05/cnae.zip''
       = Some ''PKdata''
   \<and> present (fs (snd (download_file
     \<lparr>propfind_zips = \<lambda>u k. ListBody [Some ''/d/2024-05/cnae.zip''],
      propfind_folders = \<lambda>k. FoldersRaise URLError,
      get_file = \<lambda>u k. GetResp (Some ''application/zip'') True [''PK'', ''data''] (Some OtherError)\<rparr>
     (build_file_url ''2024-05'' ''cnae.zip'') ''raw/2024-05/cnae.zip'' 3
     \<lparr>fs = \<lambda>p. None, nlist = 0, ngets = \<lambda>u. 0, trace = []\<rparr>))) ''raw/2024-05/cnae.zip''
   \<and> fst (download_month
     \<lparr>propfind_zips = \<lambda>u k. ListBody [Some ''/d/2024-05/cnae.zip''],
      propfind_folders = \<lambda>k. FoldersRaise URLError,
      get_file = \<lambda>u k. GetResp (Some ''application/zip'') True [''PK'', ''data''] (Some OtherError)\<rparr>
     \<lparr>public_token = ''tok'', raw_dir = ''raw'', max_workers = 2\<rparr> ''2024-05''
     \<lparr>fs = \<lambda>p. None, nlist = 0, ngets = \<lambda>u. 0, trace = []\<rparr>)
       = Inr \<lparr>downloaded = [], skipped = []\<rparr>
   \<and> fs (snd (download_month
     \<lparr>propfind_zips = \<lambda>u k. ListBody [Some ''/d/2024-05/cnae.zip''],
      propfind_folders = \<lambda>k. FoldersRaise URLError,
      get_file = \<lambda>u k. GetResp (Some ''application/zip'') True [''PK'', ''data''] (Some OtherError)\<rparr>
     \<lparr>public_token = ''tok'', raw_dir = ''raw'', max_workers = 2\<rparr> ''2024-05''
     \<lparr>fs = \<lambda>p. None, nlist = 0, ngets = \<lambda>u. 0, trace = []\<rparr>)) ''raw/2024-05/cnae.zip''
       = Some ''PKdata''"
proof -
  note t = truncated_run
  note d1 = t[THEN conjunct1] and d2 = t[THEN conjunct2, THEN conjunct1]
    and m1 = t[THEN conjunct2, THEN conjunct2, THEN conjunct2, THEN conjunct2, THEN conjunct1]
    and m2 = t[THEN conjunct2, THEN conjunct2, THEN conjunct2, THEN conjunct2, THEN conjunct2]
  have p: "present (fs v) ''raw/2024-05/cnae.zip''"
    if "fs v ''raw/2024-05/cnae.zip'' = Some ''PKdata''" for v :: world
    using that by (simp add: present_def)
  from d1 d2 p[OF d2] m1 m2 show ?thesis by (intro conjI)
qed

section \<open>The lists of the result\<close>










theorem present_files_are_skipped_witness:
  "fst (download_once
     \<lparr>propfind_zips = \<lambda>u k. ListBody [Some ''/d/2024-05/cnae.zip'', Some ''/d/2024-05/empresas1.zip''],
      propfind_folders = \<lambda>k. FoldersRaise URLError,
      get_file = \<lambda>u k. GetResp (Some ''application/zip'') True [''PK''] None\<rparr>
     \<lparr>public_token = ''tok'', raw_dir = ''raw'', max_workers = 2\<rparr> ''2024-05''
     \<lparr>fs = \<lambda>p. if p = ''raw/2024-05/cnae.zip'' then Some ''old'' else None,
      nlist = 0, ngets = \<lambda>u. 0, trace = []\<rparr>)
   = Inr \<lparr>downloaded = [''raw/2024-05/empresas1.zip''], skipped = [''raw/2024-05/cnae.zip'']\<rparr>
   \<and> fs (snd (download_once
     \<lparr>propfind_zips = \<lambda>u k. ListBody [Some ''/d/2024-05/cnae.zip'', Some ''/d/2024-05/empresas1.zip''],
      propfind_folders = \<lambda>k. FoldersRaise URLError,
      get_file = \<lambda>u k. GetResp (Some ''application/zip'') True [''PK''] None\<rparr>
     \<lparr>public_token = ''tok'', raw_dir = ''raw'', max_workers = 2\<rparr> ''2024-05''
     \<lparr>fs = \<lambda>p. if p = ''raw/2024-05/cnae.zip'' then Some ''old'' else None,
      nlist = 0, ngets = \<lambda>u. 0, trace = []\<rparr>)) ''raw/2024-05/cnae.zip'' = Some ''old''
   \<and> fst (download_month
     \<lparr>propfind_zips = \<lambda>u k. ListBody [Some ''/d/2024-05/cnae.zip'', Some ''/d/2024-05/empresas1.zip''],
      propfind_folders = \<lambda>k. FoldersRaise URLError,
      get_file = \<lambda>u k. GetResp (Some ''application/zip'') True [''PK''] None\<rparr>
     \<lparr>public_token = ''tok'', raw_dir = ''raw'', max_workers = 2\<rparr> ''2024-05''
     \<lparr>fs = \<lambda>p. if p = ''raw/2024-05/cnae.zip'' then Some ''old''
                else if p = ''raw/2024-05/empresas1.zip'' then Some ''older'' else None,
      nlist = 0, ngets = \<lambda>u. 0, trace = []\<rparr>)
   = Inr \<lparr>downloaded = [], skipped = [''raw/2024-05/cnae.zip'', ''raw/2024-05/empresas1.zip'']\<rparr>
   \<and> ngets (snd (download_month
     \<lparr>propfind_zips = \<lambda>u k. ListBody [Some ''/d/2024-05/cnae.zip'', Some ''/d/2024-05/empresas1.zip''],
      propfind_folders = \<lambda>k. FoldersRaise URLError,
      get_file = \<lambda>u k. GetResp (Some ''application/zip'') True [''PK''] None\<rparr>
     \<lparr>public_token = ''tok'', raw_dir = ''raw'', max_workers = 2\<rparr> ''2024-05''
     \<lparr>fs = \<lambda>p. if p = ''raw/2024-05/cnae.zip'' then Some ''old''
                else if p = ''raw/2024-05/empresas1.zip'' then Some ''older'' else None,
      nlist = 0, ngets = \<lambda>u. 0, trace = []\<rparr>)) = (\<lambda>u. 0)"
proof -
  let ?env = "\<lparr>propfind_zips = \<lambda>u k. ListBody [Some ''/d/2024-05/cnae.zip'', Some ''/d/2024-05/empresas1.zip''],
      propfind_folders = \<lambda>k. FoldersRaise URLError,
      get_file = \<lambda>u k. GetResp (Some ''application/zip'') True [''PK''] None\<rparr>"
  let ?self = "\<lparr>public_token = ''tok'', raw_dir = ''raw'', max_workers = 2\<rparr>"
  let ?w1 = "\<lparr>fs = \<lambda>p. if p = ''raw/2024-05/cnae.zip'' then Some ''old'' else None,
      nlist = 0, ngets = \<lambda>u. 0, trace = []\<rparr> :: world"
  let ?w2 = "\<lparr>fs = \<lambda>p. if p = ''raw/2024-05/cnae.zip'' then Some ''old''
                else if p = ''raw/2024-05/empresas1.zip'' then Some ''older'' else None,
      nlist = 0, ngets = \<lambda>u. 0, trace = []\<rparr> :: world"
  let ?names = "[''cnae.zip'', ''empresas1.zip'']"
  \<comment> \<open>one round, one file present\<close>
  let ?once = "download_once ?env ?self ''2024-05'' ?w1"
  have o: "fst ?once = Inr \<lparr>downloaded = [''raw/2024-05/empresas1.zip''],
                             skipped = [''raw/2024-05/cnae.zip'']\<rparr>"
    by code_simp
  let ?l = "list_month_zips ?env ''2024-05'' 5 ?w1"
  have "fst ?l = Inr ?names" by code_simp
  then have l: "?l = (Inr ?names, snd ?l)"
    by (simp only: prod_eq_iff fst_conv snd_conv simp_thms)
  note a = present_files_are_skipped[where env = ?env and self = ?self and mon = "''2024-05''"
      and w = ?w1 and names = ?names and ?w1.0 = "snd ?l", THEN conjunct1, THEN mp, OF l]
  from a obtain fetched w2 where dk: "?once = (Inr \<lparr>downloaded = fetched,
        skipped = map (out_path_of ?self ''2024-05'')
                    (filter (\<lambda>n. present (fs ?w1) (out_path_of ?self ''2024-05'' n)) ?names)\<rparr>, w2)
      \<and> {u. ngets ?w1 u < ngets w2 u}
             = build_file_url ''2024-05'' ` {n \<in> set ?names. \<not> present (fs ?w1) (out_path_of ?self ''2024-05'' n)}
      \<and> (\<forall>u. ngets ?w1 u \<le> ngets w2 u)
      \<and> (\<forall>p. present (fs ?w1) p \<longrightarrow> fs w2 p = fs ?w1 p)"
    by (elim exE)
  from dk have d: "?once = (Inr \<lparr>downloaded = fetched,
        skipped = map (out_path_of ?self ''2024-05'')
                    (filter (\<lambda>n. present (fs ?w1) (out_path_of ?self ''2024-05'' n)) ?names)\<rparr>, w2)"
    by (rule conjunct1)
  from dk have keep: "\<forall>p. present (fs ?w1) p \<longrightarrow> fs w2 p = fs ?w1 p"
    by (elim conjE)
  have w2: "w2 = snd ?once" by (subst d) (rule snd_conv[symmetric])
  have "present (fs ?w1) ''raw/2024-05/cnae.zip''" by (simp add: present_def)
  with keep[rule_format, of "''raw/2024-05/cnae.zip''"]
  have k: "fs (snd ?once) ''raw/2024-05/cnae.zip'' = Some ''old''"
    unfolding w2 by simp
  \<comment> \<open>the whole month, both files present\<close>
  let ?la = "list_month_zips ?env ''2024-05'' 5 (emit (Round 1) ?w2)"
  let ?lb = "list_month_zips ?env ''2024-05'' 5 (snd ?la)"
  have "fst ?la = Inr ?names" by code_simp
  then have la: "?la = (Inr ?names, snd ?la)"
    by (simp only: prod_eq_iff fst_conv snd_conv simp_thms)
  have "fst ?lb = Inr ?names" by code_simp
  then have lb: "?lb = (Inr ?names, snd ?lb)"
    by (simp only: prod_eq_iff fst_conv snd_conv simp_thms)
  have paths: "map (out_path_of ?self ''2024-05'') ?names
                 = [''raw/2024-05/cnae.zip'', ''raw/2024-05/empresas1.zip'']"
    by code_simp
  have pres: "\<forall>n \<in> set ?names. present (fs ?w2) (out_path_of ?self ''2024-05'' n)"
    by (simp add: present_def out_path_of_def month_dir_of_def)
  note b = present_files_are_skipped[where env = ?env and self = ?self and mon = "''2024-05''"
      and w = ?w2 and ?names1.0 = ?names and ?v1.0 = "snd ?la" and ?names2.0 = ?names
      and ?v2.0 = "snd ?lb", THEN conjunct2, THEN conjunct2, THEN mp,
      OF conjI[OF la conjI[OF pres conjI[OF lb pres]]]]
  have m: "download_month ?env ?self ''2024-05'' ?w2
              = (Inr \<lparr>downloaded = [], skipped = map (out_path_of ?self ''2024-05'') ?names\<rparr>, snd ?lb)"
    using b by (rule conjunct1)
  have g: "ngets (snd ?lb) = ngets ?w2"
    using b by (elim conjE)
  have m1: "fst (download_month ?env ?self ''2024-05'' ?w2)
     = Inr \<lparr>downloaded = [], skipped = [''raw/2024-05/cnae.zip'', ''raw/2024-05/empresas1.zip'']\<rparr>"
    unfolding m paths by (rule fst_conv)
  have "ngets ?w2 = (\<lambda>u. 0)" by simp
  with g have m2: "ngets (snd (download_month ?env ?self ''2024-05'' ?w2)) = (\<lambda>u. 0)"
    unfolding m snd_conv by (rule trans)
  from o k m1 m2 show ?thesis by (intro conjI)
qed


end
